theory Spec2Isabelle
  imports Main "HOL-Library.Multiset"
begin

section \<open>JavaScript strings, byte buffers and errors\<close>

text \<open>
  A JavaScript string is a sequence of UTF-16 code units; a code unit is modelled as a
  natural number below \<open>2 ^ 16\<close>. A \<open>Buffer\<close> is a sequence of bytes, each a natural
  number below \<open>2 ^ 8\<close>. No arithmetic of the program can leave these ranges, so no
  wrap-around is written out. String literals of the source are ASCII and are written
  \<open>ascii ''...''\<close>.
\<close>

type_synonym js_string = "nat list"

type_synonym buffer = "nat list"

definition ascii :: "string \<Rightarrow> js_string" where
  "ascii s = map of_char s"

datatype js_error = URIError | TypeError | StorageError

text \<open>\<open>String.prototype.startsWith(searchString)\<close>, position 0.\<close>

definition startsWith :: "js_string \<Rightarrow> js_string \<Rightarrow> bool" where
  "startsWith s p = (take (length p) s = p)"

text \<open>
  \<open>String.prototype.replace(searchValue, replaceValue)\<close> with a string
  \<open>searchValue\<close>: only the first occurrence is replaced; a string without an
  occurrence is returned as it is. The replacement of the source is the empty string,
  which holds no \<open>$\<close> pattern.
\<close>

fun replace :: "js_string \<Rightarrow> js_string \<Rightarrow> js_string \<Rightarrow> js_string" where
  "replace [] pat rep = (if pat = [] then rep else [])"
| "replace (c # cs) pat rep =
     (if startsWith (c # cs) pat then rep @ drop (length pat) (c # cs)
      else c # replace cs pat rep)"

subsection \<open>UTF-8 and UTF-16\<close>

text \<open>\<open>UTF16EncodeCodePoint\<close> of ECMAScript: one code unit, or a surrogate pair.\<close>

definition UTF16EncodeCodePoint :: "nat \<Rightarrow> js_string" where
  "UTF16EncodeCodePoint cp =
     (if cp < 0x10000 then [cp]
      else [0xD800 + (cp - 0x10000) div 0x400, 0xDC00 + (cp - 0x10000) mod 0x400])"

definition is_continuation :: "nat \<Rightarrow> bool" where
  "is_continuation b = (0x80 \<le> b \<and> b \<le> 0xBF)"

subsection \<open>\<open>decodeURIComponent\<close>\<close>

text \<open>
  The abstract operation \<open>Decode\<close> of ECMAScript with an empty set of preserved
  escapes. A code unit other than \<open>%\<close> is copied. \<open>%\<close> must be followed by two
  hexadecimal digits, the octet \<open>B\<close>. With no leading 1 bit, \<open>B\<close> is the code unit.
  With \<open>n\<close> leading 1 bits, \<open>n = 1\<close> or \<open>n > 4\<close> is a \<open>URIError\<close>; otherwise
  \<open>n - 1\<close> further escapes \<open>%XX\<close> follow, and the \<open>n\<close> octets must be the valid
  UTF-8 encoding of a code point, which is appended in UTF-16.
\<close>

definition hex_value :: "nat \<Rightarrow> nat option" where
  "hex_value c =
     (if 0x30 \<le> c \<and> c \<le> 0x39 then Some (c - 0x30)
      else if 0x41 \<le> c \<and> c \<le> 0x46 then Some (c - 0x41 + 10)
      else if 0x61 \<le> c \<and> c \<le> 0x66 then Some (c - 0x61 + 10)
      else None)"

fun ParseHexOctet :: "js_string \<Rightarrow> nat option" where
  "ParseHexOctet (h # l # _) =
     (case hex_value h of
        None \<Rightarrow> None
      | Some a \<Rightarrow> (case hex_value l of None \<Rightarrow> None | Some b \<Rightarrow> Some (16 * a + b)))"
| "ParseHexOctet _ = None"

definition leading_ones :: "nat \<Rightarrow> nat" where
  "leading_ones B =
     (if B < 0x80 then 0 else if B < 0xC0 then 1 else if B < 0xE0 then 2
      else if B < 0xF0 then 3 else if B < 0xF8 then 4 else 5)"

text \<open>The \<open>j\<close> escapes \<open>%XX\<close> at the head of the string, or \<open>None\<close> for a \<open>URIError\<close>.\<close>

fun continuation_octets :: "nat \<Rightarrow> js_string \<Rightarrow> nat list option" where
  "continuation_octets 0 cs = Some []"
| "continuation_octets (Suc j) [] = None"
| "continuation_octets (Suc j) (p # rest) =
     (if p \<noteq> 0x25 then None
      else (case ParseHexOctet rest of
              None \<Rightarrow> None
            | Some b \<Rightarrow> map_option ((#) b) (continuation_octets j (drop 2 rest))))"

text \<open>
  The code point of a list of two to four octets that is its valid UTF-8 encoding:
  continuation bytes in range, no overlong form, no surrogate, at most \<open>0x10FFFF\<close>.
\<close>

fun utf8_code_point :: "nat list \<Rightarrow> nat option" where
  "utf8_code_point [b0, b1] =
     (let v = (b0 - 0xC0) * 0x40 + (b1 - 0x80)
      in if is_continuation b1 \<and> 0x80 \<le> v then Some v else None)"
| "utf8_code_point [b0, b1, b2] =
     (let v = (b0 - 0xE0) * 0x1000 + (b1 - 0x80) * 0x40 + (b2 - 0x80)
      in if is_continuation b1 \<and> is_continuation b2 \<and> 0x800 \<le> v
            \<and> \<not> (0xD800 \<le> v \<and> v \<le> 0xDFFF)
         then Some v else None)"
| "utf8_code_point [b0, b1, b2, b3] =
     (let v = (b0 - 0xF0) * 0x40000 + (b1 - 0x80) * 0x1000 + (b2 - 0x80) * 0x40 + (b3 - 0x80)
      in if is_continuation b1 \<and> is_continuation b2 \<and> is_continuation b3
            \<and> 0x10000 \<le> v \<and> v \<le> 0x10FFFF
         then Some v else None)"
| "utf8_code_point _ = None"

fun decodeURIComponent :: "js_string \<Rightarrow> js_error + js_string" where
  "decodeURIComponent [] = Inr []"
| "decodeURIComponent (c # cs) =
     (if c \<noteq> 0x25 then
        (case decodeURIComponent cs of Inl e \<Rightarrow> Inl e | Inr r \<Rightarrow> Inr (c # r))
      else
        (case ParseHexOctet cs of
           None \<Rightarrow> Inl URIError
         | Some B \<Rightarrow>
             let n = leading_ones B in
             if n = 0 then
               (case decodeURIComponent (drop 2 cs) of
                  Inl e \<Rightarrow> Inl e
                | Inr r \<Rightarrow> Inr (B # r))
             else if n = 1 \<or> 4 < n then Inl URIError
             else
               (case continuation_octets (n - 1) (drop 2 cs) of
                  None \<Rightarrow> Inl URIError
                | Some octets \<Rightarrow>
                    (case utf8_code_point (B # octets) of
                       None \<Rightarrow> Inl URIError
                     | Some V \<Rightarrow>
                         (case decodeURIComponent (drop (3 * (n - 1)) (drop 2 cs)) of
                            Inl e \<Rightarrow> Inl e
                          | Inr r \<Rightarrow> Inr (UTF16EncodeCodePoint V @ r))))))"

subsection \<open>\<open>Buffer.from(string, 'base64')\<close>\<close>

text \<open>
  Node's decoder is lenient and never throws. It reads every code unit by its low
  byte: a code unit above \<open>0xFF\<close> counts as the character of its low eight bits
  (\<open>0x141\<close> as \<open>A\<close>). A byte of the standard or of the URL-safe alphabet gives six
  bits; the byte \<open>=\<close> ends the decoding; every other byte (white space, punctuation)
  is skipped. Four sextets give three bytes, three remaining sextets two bytes, two
  remaining sextets one byte, and one remaining sextet gives none.
\<close>

definition unbase64 :: "nat \<Rightarrow> nat option" where
  "unbase64 c =
     (if 0x41 \<le> c \<and> c \<le> 0x5A then Some (c - 0x41)
      else if 0x61 \<le> c \<and> c \<le> 0x7A then Some (c - 0x61 + 26)
      else if 0x30 \<le> c \<and> c \<le> 0x39 then Some (c - 0x30 + 52)
      else if c = 0x2B \<or> c = 0x2D then Some 62
      else if c = 0x2F \<or> c = 0x5F then Some 63
      else None)"

fun base64_sextets :: "js_string \<Rightarrow> nat list" where
  "base64_sextets [] = []"
| "base64_sextets (c # cs) =
     (case unbase64 (c mod 0x100) of
        Some v \<Rightarrow> v # base64_sextets cs
      | None \<Rightarrow> if c mod 0x100 = 0x3D then [] else base64_sextets cs)"

fun sextets_bytes :: "nat list \<Rightarrow> buffer" where
  "sextets_bytes (a # b # c # d # rest) =
     (a * 4 + b div 16) # ((b mod 16) * 16 + c div 4) # ((c mod 4) * 64 + d)
       # sextets_bytes rest"
| "sextets_bytes [a, b, c] = [a * 4 + b div 16, (b mod 16) * 16 + c div 4]"
| "sextets_bytes [a, b] = [a * 4 + b div 16]"
| "sextets_bytes _ = []"

definition Buffer_from_base64 :: "js_string \<Rightarrow> buffer" where
  "Buffer_from_base64 s = sextets_bytes (base64_sextets s)"

subsection \<open>\<open>buf.toString()\<close>\<close>

text \<open>
  The bytes are decoded as UTF-8 and the decoding never throws: an ill-formed sequence
  becomes U+FFFD, one for each maximal prefix of a well-formed sequence, and the byte
  that ended the prefix is decoded again. The code points are the result in UTF-16.
\<close>

fun utf8_decode :: "buffer \<Rightarrow> nat list" where
  "utf8_decode [] = []"
| "utf8_decode (b # bs) =
     (if b < 0x80 then b # utf8_decode bs
      else if 0xC2 \<le> b \<and> b \<le> 0xDF then
        (case bs of
           [] \<Rightarrow> [0xFFFD]
         | c1 # r1 \<Rightarrow>
             if is_continuation c1
             then ((b - 0xC0) * 0x40 + (c1 - 0x80)) # utf8_decode r1
             else 0xFFFD # utf8_decode bs)
      else if 0xE0 \<le> b \<and> b \<le> 0xEF then
        (case bs of
           [] \<Rightarrow> [0xFFFD]
         | c1 # r1 \<Rightarrow>
             if (if b = 0xE0 then 0xA0 else 0x80) \<le> c1
                \<and> c1 \<le> (if b = 0xED then 0x9F else 0xBF)
             then
               (case r1 of
                  [] \<Rightarrow> [0xFFFD]
                | c2 # r2 \<Rightarrow>
                    if is_continuation c2
                    then ((b - 0xE0) * 0x1000 + (c1 - 0x80) * 0x40 + (c2 - 0x80))
                           # utf8_decode r2
                    else 0xFFFD # utf8_decode r1)
             else 0xFFFD # utf8_decode bs)
      else if 0xF0 \<le> b \<and> b \<le> 0xF4 then
        (case bs of
           [] \<Rightarrow> [0xFFFD]
         | c1 # r1 \<Rightarrow>
             if (if b = 0xF0 then 0x90 else 0x80) \<le> c1
                \<and> c1 \<le> (if b = 0xF4 then 0x8F else 0xBF)
             then
               (case r1 of
                  [] \<Rightarrow> [0xFFFD]
                | c2 # r2 \<Rightarrow>
                    if is_continuation c2
                    then
                      (case r2 of
                         [] \<Rightarrow> [0xFFFD]
                       | c3 # r3 \<Rightarrow>
                           if is_continuation c3
                           then ((b - 0xF0) * 0x40000 + (c1 - 0x80) * 0x1000
                                   + (c2 - 0x80) * 0x40 + (c3 - 0x80))
                                  # utf8_decode r3
                           else 0xFFFD # utf8_decode r2)
                    else 0xFFFD # utf8_decode r1)
             else 0xFFFD # utf8_decode bs)
      else 0xFFFD # utf8_decode bs)"

definition Buffer_toString :: "buffer \<Rightarrow> js_string" where
  "Buffer_toString buf = concat (map UTF16EncodeCodePoint (utf8_decode buf))"

section \<open>\<open>decode\<close>\<close>

text \<open>
  \<open>decode(text)\<close> of the source:
  \<open>Buffer.from(decodeURIComponent(text), 'base64').toString()\<close>. The only call that
  can throw is \<open>decodeURIComponent\<close>.
\<close>

definition decode :: "js_string \<Rightarrow> js_error + js_string" where
  "decode text =
     (case decodeURIComponent text of
        Inl e \<Rightarrow> Inl e
      | Inr s \<Rightarrow> Inr (Buffer_toString (Buffer_from_base64 s)))"

section \<open>The encoder of filter tokens\<close>

text \<open>
  Modelled from the spec: the encoder that produces filter tokens is not part of the
  server file; the spec describes it as the percent-encoding of the base64 of the text.
  It is modelled as \<open>encodeURIComponent(Buffer.from(text).toString('base64'))\<close>, the
  mirror image of \<open>decode\<close>.
\<close>

definition is_high_surrogate :: "nat \<Rightarrow> bool" where
  "is_high_surrogate c = (0xD800 \<le> c \<and> c \<le> 0xDBFF)"

definition is_low_surrogate :: "nat \<Rightarrow> bool" where
  "is_low_surrogate c = (0xDC00 \<le> c \<and> c \<le> 0xDFFF)"

definition surrogate_pair :: "nat \<Rightarrow> nat \<Rightarrow> nat" where
  "surrogate_pair h l = 0x10000 + (h - 0xD800) * 0x400 + (l - 0xDC00)"

text \<open>
  The code points of a string as \<open>Buffer.from(text)\<close> reads them: a surrogate pair is
  one code point, an unpaired surrogate is replaced by U+FFFD.
\<close>

fun utf16_code_points :: "js_string \<Rightarrow> nat list" where
  "utf16_code_points [] = []"
| "utf16_code_points [c] =
     [if is_high_surrogate c \<or> is_low_surrogate c then 0xFFFD else c]"
| "utf16_code_points (c # d # cs) =
     (if is_high_surrogate c \<and> is_low_surrogate d
      then surrogate_pair c d # utf16_code_points cs
      else (if is_high_surrogate c \<or> is_low_surrogate c then 0xFFFD else c)
             # utf16_code_points (d # cs))"

definition utf8_encode :: "nat \<Rightarrow> buffer" where
  "utf8_encode cp =
     (if cp < 0x80 then [cp]
      else if cp < 0x800 then [0xC0 + cp div 0x40, 0x80 + cp mod 0x40]
      else if cp < 0x10000 then
        [0xE0 + cp div 0x1000, 0x80 + (cp div 0x40) mod 0x40, 0x80 + cp mod 0x40]
      else
        [0xF0 + cp div 0x40000, 0x80 + (cp div 0x1000) mod 0x40,
         0x80 + (cp div 0x40) mod 0x40, 0x80 + cp mod 0x40])"

definition Buffer_from_utf8 :: "js_string \<Rightarrow> buffer" where
  "Buffer_from_utf8 s = concat (map utf8_encode (utf16_code_points s))"

definition base64_char :: "nat \<Rightarrow> nat" where
  "base64_char v =
     (if v < 26 then 0x41 + v
      else if v < 52 then 0x61 + (v - 26)
      else if v < 62 then 0x30 + (v - 52)
      else if v = 62 then 0x2B
      else 0x2F)"

text \<open>\<open>buf.toString('base64')\<close>: the standard alphabet, padded with \<open>=\<close>.\<close>

fun Buffer_toString_base64 :: "buffer \<Rightarrow> js_string" where
  "Buffer_toString_base64 (a # b # c # rest) =
     base64_char (a div 4) # base64_char ((a mod 4) * 16 + b div 16)
       # base64_char ((b mod 16) * 4 + c div 64) # base64_char (c mod 64)
       # Buffer_toString_base64 rest"
| "Buffer_toString_base64 [a, b] =
     [base64_char (a div 4), base64_char ((a mod 4) * 16 + b div 16),
      base64_char ((b mod 16) * 4), 0x3D]"
| "Buffer_toString_base64 [a] =
     [base64_char (a div 4), base64_char ((a mod 4) * 16), 0x3D, 0x3D]"
| "Buffer_toString_base64 [] = []"

text \<open>
  \<open>encodeURIComponent\<close>: the abstract operation \<open>Encode\<close> of ECMAScript. Letters,
  digits and \<open>- _ . ! ~ * ' ( )\<close> are copied; every other code point is written as
  the escapes \<open>%XX\<close> of its UTF-8 octets, in upper-case hexadecimal; an unpaired
  surrogate is a \<open>URIError\<close>.
\<close>

definition uriUnescaped :: "nat \<Rightarrow> bool" where
  "uriUnescaped c =
     ((0x41 \<le> c \<and> c \<le> 0x5A) \<or> (0x61 \<le> c \<and> c \<le> 0x7A) \<or> (0x30 \<le> c \<and> c \<le> 0x39)
      \<or> c \<in> set (ascii ''-_.!~*()'') \<or> c = 0x27)"

definition hex_digit :: "nat \<Rightarrow> nat" where
  "hex_digit d = (if d < 10 then 0x30 + d else 0x41 + (d - 10))"

definition percent_escape :: "buffer \<Rightarrow> js_string" where
  "percent_escape octets =
     concat (map (\<lambda>b. [0x25, hex_digit (b div 16), hex_digit (b mod 16)]) octets)"

fun encodeURIComponent :: "js_string \<Rightarrow> js_error + js_string" where
  "encodeURIComponent [] = Inr []"
| "encodeURIComponent (c # cs) =
     (if uriUnescaped c then
        (case encodeURIComponent cs of Inl e \<Rightarrow> Inl e | Inr r \<Rightarrow> Inr (c # r))
      else if is_low_surrogate c then Inl URIError
      else if is_high_surrogate c then
        (case cs of
           [] \<Rightarrow> Inl URIError
         | d # ds \<Rightarrow>
             if is_low_surrogate d then
               (case encodeURIComponent ds of
                  Inl e \<Rightarrow> Inl e
                | Inr r \<Rightarrow> Inr (percent_escape (utf8_encode (surrogate_pair c d)) @ r))
             else Inl URIError)
      else
        (case encodeURIComponent cs of
           Inl e \<Rightarrow> Inl e
         | Inr r \<Rightarrow> Inr (percent_escape (utf8_encode c) @ r)))"

definition encode :: "js_string \<Rightarrow> js_error + js_string" where
  "encode text = encodeURIComponent (Buffer_toString_base64 (Buffer_from_utf8 text))"

text \<open>
  Valid text: every element is a code unit and no surrogate is unpaired.
\<close>

fun valid_text :: "js_string \<Rightarrow> bool" where
  "valid_text [] = True"
| "valid_text (c # cs) =
     (if is_high_surrogate c then
        (case cs of [] \<Rightarrow> False | d # ds \<Rightarrow> is_low_surrogate d \<and> valid_text ds)
      else c < 0x10000 \<and> \<not> is_low_surrogate c \<and> valid_text cs)"

section \<open>Values, options and the calls to the storage layer\<close>

text \<open>
  Values that the file only passes on (sort field, limit, offset, ids) are kept as
  JavaScript values. Numbers are the integers: the file computes with none of them.
\<close>

datatype js_value = JUndefined | JNull | JBool bool | JNumber int | JString js_string

record library =
  library_id :: js_value
  library_mediaType :: js_value

text \<open>
  The \<open>options\<close> object of \<open>getFilteredLibraryItems\<close>. \<open>filterBy\<close> is a string or
  absent (\<open>None\<close> stands for \<open>null\<close> and \<open>undefined\<close>); \<open>include\<close> is an array of
  strings.
\<close>

record options =
  filterBy :: "js_string option"
  sortBy :: js_value
  sortDesc :: js_value
  limit :: js_value
  offset :: js_value
  collapseseries :: js_value
  include_flags :: "js_string list"
  mediaType :: js_value

text \<open>
  The calls that the file makes to its collaborators, with their arguments in the order
  of the source. The last is \<open>Database.models.series.findAndCountAll\<close>: the library
  id, the limit, and whether the feed model is among the includes.
\<close>

datatype storage_call =
    Book_getFilteredLibraryItems js_value js_value "js_string option" "js_string option"
      js_value js_value js_value "js_string list" js_value js_value
  | Podcast_getFilteredLibraryItems js_value js_value "js_string option" "js_string option"
      js_value js_value "js_string list" js_value js_value
  | Book_getContinueSeriesLibraryItems js_value js_value "js_string list" js_value js_value
  | Series_findAndCountAll js_value js_value bool

text \<open>What a strategy resolves to: \<open>{ libraryItems, count }\<close>.\<close>

record 'a page =
  libraryItems :: "'a list"
  count :: js_value

text \<open>
  A collaborator answers a call with a page or rejects; a rejection propagates through
  \<open>await\<close>. Every operation returns its result together with the calls it issued.
\<close>

type_synonym 'a strategy = "storage_call \<Rightarrow> js_error + 'a page"

section \<open>\<open>getFilteredLibraryItems\<close>\<close>

definition searchGroups :: "js_string list" where
  "searchGroups = map ascii [''genres'', ''tags'', ''series'', ''authors'', ''progress'',
     ''narrators'', ''publishers'', ''missing'', ''languages'', ''tracks'', ''ebooks'']"

text \<open>Truthiness of a string that may be \<open>null\<close> or \<open>undefined\<close>.\<close>

definition truthy_string :: "js_string option \<Rightarrow> bool" where
  "truthy_string s = (case s of None \<Rightarrow> False | Some t \<Rightarrow> t \<noteq> [])"

text \<open>
  Lines 21 to 28 of the source: the pair \<open>(filterGroup, filterValue)\<close>, or the error
  that \<open>decode\<close> throws.
\<close>

definition parseFilterBy ::
  "js_string option \<Rightarrow> js_error + (js_string option \<times> js_string option)" where
  "parseFilterBy filterBy' =
     (case filterBy' of
        None \<Rightarrow> Inr (None, None)
      | Some f \<Rightarrow>
          if \<not> truthy_string (Some f) then Inr (None, None)
          else
            let group = find (\<lambda>g. startsWith f (g @ ascii ''.'')) searchGroups;
                filterGroup = (if truthy_string group then group else Some f)
            in (case group of
                  None \<Rightarrow> Inr (filterGroup, None)
                | Some g \<Rightarrow>
                    if truthy_string group then
                      (case decode (replace f (g @ ascii ''.'') []) of
                         Inl e \<Rightarrow> Inl e
                       | Inr v \<Rightarrow> Inr (filterGroup, Some v))
                    else Inr (filterGroup, None)))"

definition getFilteredLibraryItems ::
  "'a strategy \<Rightarrow> library \<Rightarrow> js_value \<Rightarrow> options
     \<Rightarrow> (js_error + 'a page) \<times> storage_call list" where
  "getFilteredLibraryItems storage lib userId opts =
     (case parseFilterBy (filterBy opts) of
        Inl e \<Rightarrow> (Inl e, [])
      | Inr (filterGroup, filterValue) \<Rightarrow>
          if mediaType opts = JString (ascii ''book'') then
            (let call = Book_getFilteredLibraryItems (library_id lib) userId filterGroup
                   filterValue (sortBy opts) (sortDesc opts) (collapseseries opts)
                   (include_flags opts) (limit opts) (offset opts)
             in (storage call, [call]))
          else
            (let call = Podcast_getFilteredLibraryItems (library_id lib) userId filterGroup
                   filterValue (sortBy opts) (sortDesc opts) (include_flags opts)
                   (limit opts) (offset opts)
             in (storage call, [call])))"

section \<open>The shelves of library items\<close>

text \<open>
  A library item as the strategies return it: the properties that the file reads
  (\<open>rssFeed\<close>, \<open>size\<close>, \<open>series\<close>) and the rest of the entity. \<open>size\<close> is a number
  of bytes or absent.
\<close>

record ('e, 'f, 's) libraryItem =
  entity :: 'e
  li_rssFeed :: "'f option"
  li_size :: "int option"
  li_series :: "'s option"

text \<open>
  The minified JSON of a library item: the properties that the file writes
  (\<open>rssFeed\<close>, \<open>media.size\<close>, \<open>media.metadata.series\<close>) and the rest of the object.
\<close>

record ('j, 'm, 's) oldLibraryItem =
  json :: 'j
  rssFeed :: "'m option"
  media_size :: "int option"
  media_metadata_series :: "'s option"

text \<open>
  The projectors of \<open>Database.models\<close>, which are not part of the file:
  \<open>libraryItem.getOldLibraryItem(li).toJSONMinified()\<close> and
  \<open>feed.getOldFeed(f).toJSONMinified()\<close>.
\<close>

record ('e, 'f, 's, 'j, 'm) projectors =
  getOldLibraryItem_toJSONMinified :: "('e, 'f, 's) libraryItem \<Rightarrow> ('j, 'm, 's) oldLibraryItem"
  getOldFeed_toJSONMinified :: "'f \<Rightarrow> 'm"

text \<open>Truthiness of a number that may be absent: \<open>0\<close> is falsy.\<close>

definition truthy_number :: "int option \<Rightarrow> bool" where
  "truthy_number n = (case n of None \<Rightarrow> False | Some k \<Rightarrow> k \<noteq> 0)"

text \<open>The three callbacks of \<open>libraryItems.map\<close>.\<close>

definition attach_feed ::
  "('e, 'f, 's, 'j, 'm) projectors \<Rightarrow> ('e, 'f, 's) libraryItem \<Rightarrow> ('j, 'm, 's) oldLibraryItem" where
  "attach_feed P li =
     (let oldLibraryItem = getOldLibraryItem_toJSONMinified P li
      in (case li_rssFeed li of
            None \<Rightarrow> oldLibraryItem
          | Some f \<Rightarrow> oldLibraryItem\<lparr>rssFeed := Some (getOldFeed_toJSONMinified P f)\<rparr>))"

definition attach_feed_size ::
  "('e, 'f, 's, 'j, 'm) projectors \<Rightarrow> ('e, 'f, 's) libraryItem \<Rightarrow> ('j, 'm, 's) oldLibraryItem" where
  "attach_feed_size P li =
     (let oldLibraryItem = attach_feed P li
      in if truthy_number (li_size li) \<and> \<not> truthy_number (media_size oldLibraryItem)
         then oldLibraryItem\<lparr>media_size := li_size li\<rparr>
         else oldLibraryItem)"

definition attach_feed_series ::
  "('e, 'f, 's, 'j, 'm) projectors \<Rightarrow> ('e, 'f, 's) libraryItem \<Rightarrow> ('j, 'm, 's) oldLibraryItem" where
  "attach_feed_series P li =
     (let oldLibraryItem = attach_feed P li
      in (case li_series li of
            None \<Rightarrow> oldLibraryItem
          | Some sr \<Rightarrow> oldLibraryItem\<lparr>media_metadata_series := Some sr\<rparr>))"

definition getLibraryItemsInProgress ::
  "('e, 'f, 's, 'j, 'm) projectors \<Rightarrow> ('e, 'f, 's) libraryItem strategy \<Rightarrow> library \<Rightarrow> js_value
     \<Rightarrow> js_string list \<Rightarrow> js_value \<Rightarrow> bool
     \<Rightarrow> (js_error + ('j, 'm, 's) oldLibraryItem page) \<times> storage_call list" where
  "getLibraryItemsInProgress P storage lib userId incl lim ebook =
     (if library_mediaType lib = JString (ascii ''book'') then
        (let filterValue = (if ebook then ascii ''ebook-in-progress''
                            else ascii ''audio-in-progress'');
             call = Book_getFilteredLibraryItems (library_id lib) userId
                      (Some (ascii ''progress'')) (Some filterValue)
                      (JString (ascii ''progress'')) (JBool True) (JBool False) incl lim
                      (JNumber 0)
         in (case storage call of
               Inl e \<Rightarrow> (Inl e, [call])
             | Inr r \<Rightarrow>
                 (Inr \<lparr>libraryItems = map (attach_feed P) (libraryItems r), count = count r\<rparr>,
                  [call])))
      else (Inr \<lparr>libraryItems = [], count = JNumber 0\<rparr>, []))"

definition getLibraryItemsMostRecentlyAdded ::
  "('e, 'f, 's, 'j, 'm) projectors \<Rightarrow> ('e, 'f, 's) libraryItem strategy \<Rightarrow> library \<Rightarrow> js_value
     \<Rightarrow> js_string list \<Rightarrow> js_value
     \<Rightarrow> (js_error + ('j, 'm, 's) oldLibraryItem page) \<times> storage_call list" where
  "getLibraryItemsMostRecentlyAdded P storage lib userId incl lim =
     (if library_mediaType lib = JString (ascii ''book'') then
        (let call = Book_getFilteredLibraryItems (library_id lib) userId None None
                      (JString (ascii ''addedAt'')) (JBool True) (JBool False) incl lim
                      (JNumber 0)
         in (case storage call of
               Inl e \<Rightarrow> (Inl e, [call])
             | Inr r \<Rightarrow>
                 (Inr \<lparr>libraryItems = map (attach_feed_size P) (libraryItems r),
                       count = count r\<rparr>,
                  [call])))
      else
        (let call = Podcast_getFilteredLibraryItems (library_id lib) userId None None
                      (JString (ascii ''addedAt'')) (JBool True) incl lim (JNumber 0)
         in (case storage call of
               Inl e \<Rightarrow> (Inl e, [call])
             | Inr r \<Rightarrow>
                 (Inr \<lparr>libraryItems = map (attach_feed_size P) (libraryItems r),
                       count = count r\<rparr>,
                  [call]))))"

definition getLibraryItemsContinueSeries ::
  "('e, 'f, 's, 'j, 'm) projectors \<Rightarrow> ('e, 'f, 's) libraryItem strategy \<Rightarrow> library \<Rightarrow> js_value
     \<Rightarrow> js_string list \<Rightarrow> js_value
     \<Rightarrow> (js_error + ('j, 'm, 's) oldLibraryItem page) \<times> storage_call list" where
  "getLibraryItemsContinueSeries P storage lib userId incl lim =
     (let call = Book_getContinueSeriesLibraryItems (library_id lib) userId incl lim (JNumber 0)
      in (case storage call of
            Inl e \<Rightarrow> (Inl e, [call])
          | Inr r \<Rightarrow>
              (Inr \<lparr>libraryItems = map (attach_feed_series P) (libraryItems r),
                    count = count r\<rparr>,
               [call])))"

section \<open>\<open>getSeriesMostRecentlyAdded\<close>\<close>

text \<open>
  The rows that \<open>findAndCountAll\<close> loads: a series with its \<open>feeds\<close> (present when
  the feed model was included) and its \<open>bookSeries\<close>, each with a \<open>sequence\<close> (a
  string or \<open>null\<close>) and its \<open>book\<close>, which carries its \<open>libraryItem\<close>. The rows
  are objects of the storage layer, and the file updates them in place; the model
  returns them as the call leaves them.
\<close>

record ('b, 'l) book =
  book_entity :: 'b
  libraryItem :: "'l option"

record ('b, 'l) bookSeries =
  sequence :: "js_string option"
  book :: "('b, 'l) book"

record ('r, 'f, 'b, 'l) series_row =
  series_entity :: 'r
  feeds :: "'f list option"
  bookSeries :: "('b, 'l) bookSeries list"

record 'a found =
  rows :: "'a list"
  found_count :: js_value

record ('q, 'm, 'o) oldSeries =
  oldSeries_json :: 'q
  oldSeries_rssFeed :: "'m option"
  books :: "'o list"

record 'a series_shelf =
  series :: "'a list"
  series_count :: js_value

text \<open>
  The projectors that the operation calls: \<open>s.getOldSeries().toJSON()\<close>,
  \<open>feed.getOldFeed(f).toJSONMinified()\<close>, and for a book
  \<open>getOldLibraryItem(libraryItem).toJSONMinified()\<close>, where \<open>libraryItem\<close> is the
  JSON of the book's library item with the book as its \<open>media\<close>.
\<close>

record ('r, 'f, 'b, 'l, 'q, 'm, 'j, 's) series_projectors =
  getOldSeries_toJSON :: "('r, 'f, 'b, 'l) series_row \<Rightarrow> ('q, 'm, ('j, 'm, 's) oldLibraryItem) oldSeries"
  series_getOldFeed_toJSONMinified :: "'f \<Rightarrow> 'm"
  media_getOldLibraryItem_toJSONMinified :: "'l \<Rightarrow> ('b, 'l) book \<Rightarrow> ('j, 'm, 's) oldLibraryItem"

text \<open>
  \<open>String.prototype.localeCompare\<close> is the collation of the platform. The file calls
  it as \<open>a.localeCompare(b, locales, options)\<close>; the model takes it as a parameter
  \<open>localeCompare a b locales options\<close>, whose result is negative, zero or positive. Of
  the options of a collator the file sets \<open>numeric\<close> and \<open>sensitivity\<close>.
\<close>

record collator_options =
  numeric :: bool
  sensitivity :: js_string

type_synonym collation = "js_string \<Rightarrow> js_string \<Rightarrow> js_value \<Rightarrow> collator_options \<Rightarrow> int"

text \<open>
  The comparator given to \<open>sort\<close>: two sequences that are both present and not empty
  are compared by
  \<open>a.sequence.localeCompare(b.sequence, undefined, { numeric: true, sensitivity: 'base' })\<close>.
\<close>

definition compareSequence ::
  "collation \<Rightarrow> ('b, 'l) bookSeries \<Rightarrow> ('b, 'l) bookSeries \<Rightarrow> int" where
  "compareSequence localeCompare a b =
     (if \<not> truthy_string (sequence a) then 1
      else if \<not> truthy_string (sequence b) then - 1
      else (case (sequence a, sequence b) of
              (Some sa, Some sb) \<Rightarrow>
                localeCompare sa sb JUndefined
                  \<lparr>numeric = True, sensitivity = ascii ''base''\<rparr>
            | _ \<Rightarrow> 0))"

text \<open>
  \<open>Array.prototype.sort(comparefn)\<close> sorts in place and is stable. The comparisons of
  the engine are \<open>comparefn(later, earlier) < 0\<close>, for an element \<open>later\<close> that stood
  after \<open>earlier\<close> in the array: the model inserts each element, in the order of the
  array, before the first element of the sorted part that it is less than.
\<close>

fun insert_sorted :: "('a \<Rightarrow> 'a \<Rightarrow> int) \<Rightarrow> 'a \<Rightarrow> 'a list \<Rightarrow> 'a list" where
  "insert_sorted comparefn x [] = [x]"
| "insert_sorted comparefn x (y # ys) =
     (if comparefn x y < 0 then x # y # ys else y # insert_sorted comparefn x ys)"

definition Array_sort :: "('a \<Rightarrow> 'a \<Rightarrow> int) \<Rightarrow> 'a list \<Rightarrow> 'a list" where
  "Array_sort comparefn xs = foldl (\<lambda>sorted x. insert_sorted comparefn x sorted) [] xs"

text \<open>
  The callback of \<open>s.bookSeries.map\<close>: the old library item of each book, and the rows
  as the callback leaves them, each book without its \<open>libraryItem\<close>. A book that has
  no \<open>libraryItem\<close> is a \<open>TypeError\<close> at \<open>toJSON\<close>.
\<close>

fun detach_books ::
  "('l \<Rightarrow> ('b, 'l) book \<Rightarrow> 'o) \<Rightarrow> ('b, 'l) bookSeries list
     \<Rightarrow> (js_error + 'o list) \<times> ('b, 'l) bookSeries list" where
  "detach_books G [] = (Inr [], [])"
| "detach_books G (bs # rest) =
     (case libraryItem (book bs) of
        None \<Rightarrow> (Inl TypeError, bs # rest)
      | Some li \<Rightarrow>
          (let media = (book bs)\<lparr>libraryItem := None\<rparr>;
               oldLibraryItem = G li media
           in (case detach_books G rest of
                 (Inl e, rest') \<Rightarrow> (Inl e, bs\<lparr>book := media\<rparr> # rest')
               | (Inr olds, rest') \<Rightarrow> (Inr (oldLibraryItem # olds), bs\<lparr>book := media\<rparr> # rest'))))"

text \<open>The body of the loop over the series.\<close>

definition assemble_series ::
  "('r, 'f, 'b, 'l, 'q, 'm, 'j, 's) series_projectors \<Rightarrow> collation
     \<Rightarrow> ('r, 'f, 'b, 'l) series_row
     \<Rightarrow> (js_error + ('q, 'm, ('j, 'm, 's) oldLibraryItem) oldSeries) \<times> ('r, 'f, 'b, 'l) series_row" where
  "assemble_series P localeCompare s =
     (let oldSeries0 = getOldSeries_toJSON P s;
          oldSeries1 =
            (case feeds s of
               Some (f # _) \<Rightarrow> oldSeries0\<lparr>oldSeries_rssFeed := Some (series_getOldFeed_toJSONMinified P f)\<rparr>
             | _ \<Rightarrow> oldSeries0);
          sorted = Array_sort (compareSequence localeCompare) (bookSeries s)
      in (case detach_books (media_getOldLibraryItem_toJSONMinified P) sorted of
            (Inl e, bss) \<Rightarrow> (Inl e, s\<lparr>bookSeries := bss\<rparr>)
          | (Inr olds, bss) \<Rightarrow> (Inr (oldSeries1\<lparr>books := olds\<rparr>), s\<lparr>bookSeries := bss\<rparr>)))"

fun assemble_all ::
  "('r, 'f, 'b, 'l, 'q, 'm, 'j, 's) series_projectors \<Rightarrow> collation
     \<Rightarrow> ('r, 'f, 'b, 'l) series_row list
     \<Rightarrow> (js_error + ('q, 'm, ('j, 'm, 's) oldLibraryItem) oldSeries list)
        \<times> ('r, 'f, 'b, 'l) series_row list" where
  "assemble_all P localeCompare [] = (Inr [], [])"
| "assemble_all P localeCompare (s # ss) =
     (case assemble_series P localeCompare s of
        (Inl e, s') \<Rightarrow> (Inl e, s' # ss)
      | (Inr oldSeries, s') \<Rightarrow>
          (case assemble_all P localeCompare ss of
             (Inl e, ss') \<Rightarrow> (Inl e, s' # ss')
           | (Inr allOldSeries, ss') \<Rightarrow> (Inr (oldSeries # allOldSeries), s' # ss')))"

text \<open>
  The operation returns its result, the loaded rows as it leaves them, and the calls
  it issued. The debug line that it logs is not modelled.
\<close>

definition getSeriesMostRecentlyAdded ::
  "('r, 'f, 'b, 'l, 'q, 'm, 'j, 's) series_projectors \<Rightarrow> collation
     \<Rightarrow> (storage_call \<Rightarrow> js_error + ('r, 'f, 'b, 'l) series_row found)
     \<Rightarrow> library \<Rightarrow> js_string list \<Rightarrow> js_value
     \<Rightarrow> (js_error + ('q, 'm, ('j, 'm, 's) oldLibraryItem) oldSeries series_shelf)
        \<times> ('r, 'f, 'b, 'l) series_row list \<times> storage_call list" where
  "getSeriesMostRecentlyAdded P localeCompare findAndCountAll lib incl lim =
     (let call = Series_findAndCountAll (library_id lib) lim (ascii ''rssfeed'' \<in> set incl)
      in (case findAndCountAll call of
            Inl e \<Rightarrow> (Inl e, [], [call])
          | Inr loaded \<Rightarrow>
              (case assemble_all P localeCompare (rows loaded) of
                 (Inl e, rows') \<Rightarrow> (Inl e, rows', [call])
               | (Inr allOldSeries, rows') \<Rightarrow>
                   (Inr \<lparr>series = allOldSeries, series_count = found_count loaded\<rparr>,
                    rows', [call]))))"



subsection \<open>The collation of digit strings\<close>


definition digit_values :: "js_string \<Rightarrow> nat list" where
  "digit_values s = map (\<lambda>c. c - 0x30) s"

fun skip_zeros :: "nat list \<Rightarrow> nat list" where
  "skip_zeros (d # e # ds) = (if d = 0 then skip_zeros (e # ds) else d # e # ds)"
| "skip_zeros ds = ds"

function numeric_segments :: "nat list \<Rightarrow> nat list list" where
  "numeric_segments [] = []"
| "numeric_segments (d # ds) =
     take 254 (skip_zeros (d # ds)) # numeric_segments (drop 254 (skip_zeros (d # ds)))"
  by pat_completeness auto
termination
proof (relation "measure length")
  show "wf (measure length)" by simp
next
  fix d :: nat and ds
  have le: "length (skip_zeros xs) \<le> length xs" for xs
    by (induction xs rule: skip_zeros.induct) auto
  have "(skip_zeros xs = []) = (xs = [])" for xs
    by (induction xs rule: skip_zeros.induct) simp_all
  then have "skip_zeros (d # ds) \<noteq> []" by simp
  then have "length (drop 254 (skip_zeros (d # ds))) < length (skip_zeros (d # ds))"
    by (cases "skip_zeros (d # ds)") simp_all
  with le[of "d # ds"]
  show "(drop 254 (skip_zeros (d # ds)), d # ds) \<in> measure length" by simp
qed

definition segment_value :: "nat list \<Rightarrow> nat" where
  "segment_value ds = foldl (\<lambda>n d. 10 * n + d) 0 ds"

fun compare_keys :: "nat list \<Rightarrow> nat list \<Rightarrow> int" where
  "compare_keys [] [] = 0"
| "compare_keys [] (y # ys) = - 1"
| "compare_keys (x # xs) [] = 1"
| "compare_keys (x # xs) (y # ys) =
     (if x < y then - 1 else if y < x then 1 else compare_keys xs ys)"

definition collation_key :: "collator_options \<Rightarrow> js_string \<Rightarrow> nat list" where
  "collation_key opts s =
     (if numeric opts then map segment_value (numeric_segments (digit_values s))
      else digit_values s)"

definition digits_localeCompare :: collation where
  "digits_localeCompare a b locales opts =
     compare_keys (collation_key opts a) (collation_key opts b)"



section \<open>Notions of the specification\<close>

text \<open>A Unicode scalar value: a code point that is not a surrogate.\<close>

definition scalar_value :: "nat \<Rightarrow> bool" where
  "scalar_value cp = (cp < 0x110000 \<and> \<not> (0xD800 \<le> cp \<and> cp \<le> 0xDFFF))"

text \<open>
  Valid base64: the text that encoding its own bytes gives back. Valid UTF-8: the bytes
  that encoding their own code points gives back.
\<close>

definition valid_base64 :: "js_string \<Rightarrow> bool" where
  "valid_base64 s = (Buffer_toString_base64 (Buffer_from_base64 s) = s)"

definition valid_utf8 :: "buffer \<Rightarrow> bool" where
  "valid_utf8 buf = (concat (map utf8_encode (utf8_decode buf)) = buf)"

text \<open>
  What the callback of \<open>s.bookSeries.map\<close> does to one row: the row it leaves, whose
  book has lost its \<open>libraryItem\<close>, and the old library item it returns (none for a
  book without \<open>libraryItem\<close>).
\<close>

definition detached :: "('b, 'l) bookSeries \<Rightarrow> ('b, 'l) bookSeries" where
  "detached bs = bs\<lparr>book := (book bs)\<lparr>libraryItem := None\<rparr>\<rparr>"

definition projected :: "('l \<Rightarrow> ('b, 'l) book \<Rightarrow> 'o) \<Rightarrow> ('b, 'l) bookSeries \<Rightarrow> 'o option" where
  "projected G bs = map_option (\<lambda>li. G li ((book bs)\<lparr>libraryItem := None\<rparr>)) (libraryItem (book bs))"

text \<open>The size fallback, as a function of a loaded item.\<close>

definition size_fallback ::
  "('e, 'f, 's, 'j, 'm) projectors \<Rightarrow> ('e, 'f, 's) libraryItem \<Rightarrow> int option" where
  "size_fallback P li =
     (if truthy_number (li_size li)
         \<and> \<not> truthy_number (media_size (getOldLibraryItem_toJSONMinified P li))
      then li_size li
      else media_size (getOldLibraryItem_toJSONMinified P li))"

section \<open>Sample data\<close>

text \<open>
  Concrete libraries, rows, projectors and storage answers, on which the operations are
  evaluated. Entities are numbers here.
\<close>

definition book_library :: library where
  "book_library = \<lparr>library_id = JString (ascii ''lib_b''), library_mediaType = JString (ascii ''book'')\<rparr>"

definition podcast_library :: library where
  "podcast_library =
     \<lparr>library_id = JString (ascii ''lib_p''), library_mediaType = JString (ascii ''podcast'')\<rparr>"

definition sample_projectors :: "(nat, nat, nat, nat, nat) projectors" where
  "sample_projectors =
     \<lparr>getOldLibraryItem_toJSONMinified =
        (\<lambda>li. \<lparr>json = entity li, rssFeed = None, media_size = None,
               media_metadata_series = None\<rparr>),
      getOldFeed_toJSONMinified = (\<lambda>f. f)\<rparr>"

definition sample_item :: "(nat, nat, nat) libraryItem" where
  "sample_item = \<lparr>entity = 7, li_rssFeed = None, li_size = Some 5, li_series = None\<rparr>"

definition one_item_storage :: "(nat, nat, nat) libraryItem strategy" where
  "one_item_storage call = Inr \<lparr>libraryItems = [sample_item], count = JNumber 1\<rparr>"

definition sample_item_in_series :: "(nat, nat, nat) libraryItem" where
  "sample_item_in_series = \<lparr>entity = 8, li_rssFeed = Some 3, li_size = None, li_series = Some 9\<rparr>"

definition series_item_storage :: "(nat, nat, nat) libraryItem strategy" where
  "series_item_storage call =
     Inr \<lparr>libraryItems = [sample_item_in_series, sample_item], count = JNumber 12\<rparr>"

definition failing_storage :: "(nat, nat, nat) libraryItem strategy" where
  "failing_storage call = Inl StorageError"

definition sample_options :: options where
  "sample_options =
     \<lparr>filterBy = Some (ascii ''genres.RmFudGFzeQ%3D%3D''), sortBy = JString (ascii ''addedAt''),
      sortDesc = JBool True, limit = JNumber 10, offset = JNumber 0,
      collapseseries = JBool True, include_flags = [], mediaType = JUndefined\<rparr>"

definition sample_bookSeries :: "js_string option \<Rightarrow> nat \<Rightarrow> (nat, nat) bookSeries" where
  "sample_bookSeries sq n =
     \<lparr>sequence = sq, book = \<lparr>book_entity = n, libraryItem = Some (100 + n)\<rparr>\<rparr>"

definition series_A :: "(nat, nat, nat, nat) series_row" where
  "series_A =
     \<lparr>series_entity = 1, feeds = None,
      bookSeries =
        [sample_bookSeries (Some (ascii ''3'')) 1, sample_bookSeries (Some (ascii ''1'')) 2,
         sample_bookSeries (Some (ascii ''10'')) 3, sample_bookSeries None 4]\<rparr>"

definition series_B :: "(nat, nat, nat, nat) series_row" where
  "series_B = \<lparr>series_entity = 2, feeds = None, bookSeries = []\<rparr>"

definition sample_series_projectors ::
  "(nat, nat, nat, nat, nat, nat, nat \<times> nat, nat) series_projectors" where
  "sample_series_projectors =
     \<lparr>getOldSeries_toJSON =
        (\<lambda>s. \<lparr>oldSeries_json = series_entity s, oldSeries_rssFeed = None, books = []\<rparr>),
      series_getOldFeed_toJSONMinified = (\<lambda>f. f),
      media_getOldLibraryItem_toJSONMinified =
        (\<lambda>li media. \<lparr>json = (li, book_entity media), rssFeed = None, media_size = None,
                      media_metadata_series = None\<rparr>)\<rparr>"

definition sample_findAndCountAll ::
  "storage_call \<Rightarrow> js_error + (nat, nat, nat, nat) series_row found" where
  "sample_findAndCountAll call = Inr \<lparr>rows = [series_A, series_B], found_count = JNumber 2\<rparr>"





section \<open>The round trip of filter tokens\<close>

subsection \<open>UTF-16\<close>

lemma surrogate_pair_scalar:
  assumes "is_high_surrogate h" "is_low_surrogate l"
  shows "scalar_value (surrogate_pair h l)"
    and "UTF16EncodeCodePoint (surrogate_pair h l) = [h, l]"
proof -
  define x where "x = h - 0xD800"
  define y where "y = l - 0xDC00"
  from assms have h: "h = 0xD800 + x" "x < 0x400" and l: "l = 0xDC00 + y" "y < 0x400"
    unfolding x_def y_def is_high_surrogate_def is_low_surrogate_def by arith+
  have p: "surrogate_pair h l = 0x10000 + (x * 0x400 + y)"
    by (simp add: surrogate_pair_def x_def y_def)
  from h(2) l(2) have b: "x * 0x400 + y < 0x100000" by linarith
  with p show "scalar_value (surrogate_pair h l)" by (simp add: scalar_value_def)
  from l(2) have "(x * 0x400 + y) div 0x400 = x" "(x * 0x400 + y) mod 0x400 = y" by simp_all
  with p h(1) l(1) show "UTF16EncodeCodePoint (surrogate_pair h l) = [h, l]"
    by (simp add: UTF16EncodeCodePoint_def)
qed

lemma unit_scalar:
  assumes "c < 0x10000" "\<not> is_high_surrogate c" "\<not> is_low_surrogate c"
  shows "scalar_value c" and "UTF16EncodeCodePoint c = [c]"
  using assms
  by (auto simp: scalar_value_def UTF16EncodeCodePoint_def is_high_surrogate_def
      is_low_surrogate_def)

lemma valid_text_code_points:
  "valid_text s \<Longrightarrow>
     (\<forall>cp\<in>set (utf16_code_points s). scalar_value cp)
     \<and> concat (map UTF16EncodeCodePoint (utf16_code_points s)) = s"
proof (induction s rule: utf16_code_points.induct)
  case 1
  then show ?case by simp
next
  case (2 c)
  then have "c < 0x10000" "\<not> is_high_surrogate c" "\<not> is_low_surrogate c"
    by (simp_all split: if_splits)
  from unit_scalar[OF this] this show ?case by simp
next
  case (3 c d cs)
  show ?case
  proof (cases "is_high_surrogate c")
    case True
    with "3.prems" have l: "is_low_surrogate d" and v: "valid_text cs" by simp_all
    from "3.IH"(1) True l v surrogate_pair_scalar[OF True l] show ?thesis by simp
  next
    case False
    with "3.prems" have u: "c < 0x10000" "\<not> is_low_surrogate c" and v: "valid_text (d # cs)"
      by simp_all
    from "3.IH"(2) False v unit_scalar[OF u(1) False u(2)] u(2) show ?thesis by simp
  qed
qed


subsection \<open>UTF-8\<close>

lemma split64: "(x::nat) div 0x40 * 0x1000 + x mod 0x40 * 0x40 = x * 0x40"
proof -
  have "x * 0x40 = (x div 0x40 * 0x40 + x mod 0x40) * 0x40" by simp
  also have "\<dots> = x div 0x40 * 0x40 * 0x40 + x mod 0x40 * 0x40" by (rule add_mult_distrib)
  also have "\<dots> = x div 0x40 * 0x1000 + x mod 0x40 * 0x40" by simp
  finally show ?thesis by simp
qed

lemma split3: "(cp::nat) div 0x1000 * 0x1000 + (cp div 0x40) mod 0x40 * 0x40 + cp mod 0x40 = cp"
proof -
  have "cp div 0x1000 = (cp div 0x40) div 0x40" by (simp add: div_mult2_eq[symmetric])
  then have "cp div 0x1000 * 0x1000 + (cp div 0x40) mod 0x40 * 0x40 = cp div 0x40 * 0x40"
    by (simp only: split64)
  then show ?thesis by simp
qed

lemma split64k: "(x::nat) div 0x40 * 0x40000 + x mod 0x40 * 0x1000 = x * 0x1000"
proof -
  have "x * 0x1000 = (x div 0x40 * 0x40 + x mod 0x40) * 0x1000" by simp
  also have "\<dots> = x div 0x40 * 0x40 * 0x1000 + x mod 0x40 * 0x1000" by (rule add_mult_distrib)
  also have "\<dots> = x div 0x40 * 0x40000 + x mod 0x40 * 0x1000" by simp
  finally show ?thesis by simp
qed

lemma split4: "(cp::nat) div 0x40000 * 0x40000 + (cp div 0x1000) mod 0x40 * 0x1000
              + (cp div 0x40) mod 0x40 * 0x40 + cp mod 0x40 = cp"
proof -
  have "cp div 0x40000 = (cp div 0x1000) div 0x40" by (simp add: div_mult2_eq[symmetric])
  then have "cp div 0x40000 * 0x40000 + (cp div 0x1000) mod 0x40 * 0x1000 = cp div 0x1000 * 0x1000"
    by (simp only: split64k)
  then show ?thesis by (simp only: split3)
qed

lemma mod64_window:
  fixes x :: nat
  assumes "k * 0x40 \<le> x" "x < k * 0x40 + w" "w \<le> 0x40"
  shows "x mod 0x40 < w"
proof -
  define y where "y = x - k * 0x40"
  with assms have x: "x = k * 0x40 + y" and y: "y < w" by simp_all
  have "x mod 0x40 = y mod 0x40" unfolding x by (rule mod_mult_self3)
  also from y assms(3) have "\<dots> = y" by simp
  finally show ?thesis using y by simp
qed
lemma mod64_window_ED: "0x340 \<le> (x::nat) \<Longrightarrow> x < 0x360 \<Longrightarrow> x mod 0x40 < 0x20"
  using mod64_window[of 13 x "0x20"] by simp
lemma mod64_window_F4: "0x100 \<le> (x::nat) \<Longrightarrow> x < 0x110 \<Longrightarrow> x mod 0x40 < 0x10" 
  using mod64_window[of 4 x "0x10"] by simp
lemma mod64_bound: "(x::nat) mod 0x40 < 0x40" "0x80 + (x::nat) mod 0x40 < 256"
proof -
  show "x mod 0x40 < 0x40" by simp
  then show "0x80 + x mod 0x40 < 256" by linarith
qed

lemma utf8_encode_bytes:
  assumes "cp < 0x110000"
  shows "\<forall>b\<in>set (utf8_encode cp). b < 256"
proof -
  consider (a) "cp < 0x80" | (b) "0x80 \<le> cp" "cp < 0x800" | (c) "0x800 \<le> cp" "cp < 0x10000"
    | (d) "0x10000 \<le> cp" by linarith
  then show ?thesis
  proof cases
    case a
    then show ?thesis by (simp add: utf8_encode_def)
  next
    case b
    then have "cp div 0x40 < 0x20" by simp
    then have "0xC0 + cp div 0x40 < 256" by linarith
    with b show ?thesis by (simp add: utf8_encode_def mod64_bound)
  next
    case c
    then have "cp div 0x1000 < 0x10" by simp
    then have "0xE0 + cp div 0x1000 < 256" by linarith
    with c show ?thesis by (simp add: utf8_encode_def mod64_bound)
  next
    case d
    from assms have "cp div 0x40000 < 8" by simp
    then have "0xF0 + cp div 0x40000 < 256" by linarith
    with d show ?thesis by (simp add: utf8_encode_def mod64_bound)
  qed
qed

lemma is_continuation_mod: "is_continuation (0x80 + x mod 0x40)"
proof -
  have "x mod 0x40 < 0x40" by simp
  then show ?thesis unfolding is_continuation_def by linarith
qed

lemma utf8_decode_encode:
  assumes "scalar_value cp"
  shows "utf8_decode (utf8_encode cp @ bs) = cp # utf8_decode bs"
proof -
  consider (a) "cp < 0x80" | (b) "0x80 \<le> cp" "cp < 0x800" | (c) "0x800 \<le> cp" "cp < 0x10000"
    | (d) "0x10000 \<le> cp" by linarith
  then show ?thesis
  proof cases
    case a
    then show ?thesis by (simp add: utf8_encode_def)
  next
    case b
    then have e: "utf8_encode cp = [0xC0 + cp div 0x40, 0x80 + cp mod 0x40]"
      by (simp add: utf8_encode_def)
    from b have r: "2 \<le> cp div 0x40" "cp div 0x40 < 0x20" by simp_all
    have v: "cp div 0x40 * 0x40 + cp mod 0x40 = cp" by simp
    let ?b = "0xC0 + cp div 0x40"
    from r have b0: "\<not> ?b < 0x80" "0xC2 \<le> ?b" "?b \<le> 0xDF" "?b - 0xC0 = cp div 0x40" by simp_all
    have c1: "0x80 + cp mod 0x40 - 0x80 = cp mod 0x40" by simp
    show ?thesis unfolding e
      by (simp only: append_Cons append_Nil utf8_decode.simps b0 c1 v if_True if_False list.case
          simp_thms is_continuation_mod)
  next
    case c
    then have e: "utf8_encode cp =
        [0xE0 + cp div 0x1000, 0x80 + (cp div 0x40) mod 0x40, 0x80 + cp mod 0x40]"
      by (simp add: utf8_encode_def)
    let ?b = "0xE0 + cp div 0x1000"
    let ?c1 = "0x80 + (cp div 0x40) mod 0x40"
    from c have r: "cp div 0x1000 < 0x10" by simp
    then have b0: "\<not> ?b < 0x80" "\<not> (0xC2 \<le> ?b \<and> ?b \<le> 0xDF)" "0xE0 \<le> ?b \<and> ?b \<le> 0xEF"
      "?b - 0xE0 = cp div 0x1000" by simp_all
    have m: "(cp div 0x40) mod 0x40 < 0x40" by simp
    have v: "cp div 0x1000 * 0x1000 + (cp div 0x40) mod 0x40 * 0x40 + cp mod 0x40 = cp"
      by (rule split3)
    have lo: "(if ?b = 0xE0 then 0xA0 else 0x80) \<le> ?c1"
    proof (cases "?b = 0xE0")
      case True
      then have "cp div 0x1000 = 0" by simp
      then have "cp < 0x1000" by simp
      with c(1) have "0x20 \<le> cp div 0x40 \<and> cp div 0x40 < 0x40" by arith
      then have "0x20 \<le> (cp div 0x40) mod 0x40" by simp
      with True show ?thesis by simp
    next
      case False
      then show ?thesis by simp
    qed
    have hi: "?c1 \<le> (if ?b = 0xED then 0x9F else 0xBF)"
    proof (cases "?b = 0xED")
      case True
      then have "cp div 0x1000 = 0xD" by simp
      then have k: "0xD000 \<le> cp" "cp < 0xE000" by arith+
      with assms have "cp < 0xD800" by (simp add: scalar_value_def)
      with k have "0x340 \<le> cp div 0x40" "cp div 0x40 < 0x360" by arith+
      then have "(cp div 0x40) mod 0x40 < 0x20" by (rule mod64_window_ED)
      with True show ?thesis by simp
    next
      case False
      with m show ?thesis by simp
    qed
    have c1: "?c1 - 0x80 = (cp div 0x40) mod 0x40" "0x80 + cp mod 0x40 - 0x80 = cp mod 0x40"
      by simp_all
    show ?thesis unfolding e
      by (simp only: append_Cons append_Nil utf8_decode.simps b0 c1 v lo hi if_True if_False
          list.case simp_thms is_continuation_mod)
  next
    case d
    then have e: "utf8_encode cp =
        [0xF0 + cp div 0x40000, 0x80 + (cp div 0x1000) mod 0x40,
         0x80 + (cp div 0x40) mod 0x40, 0x80 + cp mod 0x40]"
      by (simp add: utf8_encode_def)
    let ?b = "0xF0 + cp div 0x40000"
    let ?c1 = "0x80 + (cp div 0x1000) mod 0x40"
    from assms have lt: "cp < 0x110000" by (simp add: scalar_value_def)
    then have r: "cp div 0x40000 < 5" by simp
    then have b0: "\<not> ?b < 0x80" "\<not> (0xC2 \<le> ?b \<and> ?b \<le> 0xDF)" "\<not> (0xE0 \<le> ?b \<and> ?b \<le> 0xEF)"
      "0xF0 \<le> ?b \<and> ?b \<le> 0xF4" "?b - 0xF0 = cp div 0x40000" by simp_all
    have m: "(cp div 0x1000) mod 0x40 < 0x40" by simp
    have v: "cp div 0x40000 * 0x40000 + (cp div 0x1000) mod 0x40 * 0x1000
              + (cp div 0x40) mod 0x40 * 0x40 + cp mod 0x40 = cp"
      by (rule split4)
    have lo: "(if ?b = 0xF0 then 0x90 else 0x80) \<le> ?c1"
    proof (cases "?b = 0xF0")
      case True
      then have "cp div 0x40000 = 0" by simp
      then have "cp < 0x40000" by simp
      with d have "0x10 \<le> cp div 0x1000 \<and> cp div 0x1000 < 0x40" by arith
      then have "0x10 \<le> (cp div 0x1000) mod 0x40" by simp
      with True show ?thesis by simp
    next
      case False
      then show ?thesis by simp
    qed
    have hi: "?c1 \<le> (if ?b = 0xF4 then 0x8F else 0xBF)"
    proof (cases "?b = 0xF4")
      case True
      then have "cp div 0x40000 = 4" by simp
      then have "0x100000 \<le> cp" by arith
      with lt have "0x100 \<le> cp div 0x1000" "cp div 0x1000 < 0x110" by arith+
      then have "(cp div 0x1000) mod 0x40 < 0x10" by (rule mod64_window_F4)
      with True show ?thesis by simp
    next
      case False
      with m show ?thesis by simp
    qed
    have c1: "?c1 - 0x80 = (cp div 0x1000) mod 0x40"
      "0x80 + (cp div 0x40) mod 0x40 - 0x80 = (cp div 0x40) mod 0x40"
      "0x80 + cp mod 0x40 - 0x80 = cp mod 0x40"
      by simp_all
    show ?thesis unfolding e
      by (simp only: append_Cons append_Nil utf8_decode.simps b0 c1 v lo hi if_True if_False
          list.case simp_thms is_continuation_mod)
  qed
qed

subsection \<open>Base64\<close>

lemma base64_char_lt: "base64_char v < 0x80"
  unfolding base64_char_def by (simp split: if_splits, arith) 

lemma unbase64_base64_char: "v < 64 \<Longrightarrow> unbase64 (base64_char v) = Some v"
  by (auto simp: unbase64_def base64_char_def)

lemma unbase64_pad: "unbase64 0x3D = None"
  by (simp add: unbase64_def)

lemma low_byte_base64_char: "base64_char v mod 0x100 = base64_char v"
  using base64_char_lt[of v] by simp

lemma low_byte_pad: "(0x3D::nat) mod 0x100 = 0x3D"
  by simp

lemma sextets_of_three:
  fixes a b c :: nat
  assumes "b < 256" "c < 256"
  shows "a div 4 * 4 + (a mod 4 * 16 + b div 16) div 16 = a"
    and "(a mod 4 * 16 + b div 16) mod 16 * 16 + (b mod 16 * 4 + c div 64) div 4 = b"
    and "(b mod 16 * 4 + c div 64) mod 4 * 64 + c mod 64 = c"
proof -
  from assms have h: "b div 16 < 16" "c div 64 < 4" by simp_all
  from h(1) have "(a mod 4 * 16 + b div 16) div 16 = a mod 4" by simp
  then show "a div 4 * 4 + (a mod 4 * 16 + b div 16) div 16 = a" by simp
  from h(1) have "(a mod 4 * 16 + b div 16) mod 16 = b div 16" by simp
  moreover from h(2) have "(b mod 16 * 4 + c div 64) div 4 = b mod 16" by simp
  ultimately show "(a mod 4 * 16 + b div 16) mod 16 * 16 + (b mod 16 * 4 + c div 64) div 4 = b"
    by simp
  from h(2) have "(b mod 16 * 4 + c div 64) mod 4 = c div 64" by simp
  then show "(b mod 16 * 4 + c div 64) mod 4 * 64 + c mod 64 = c" by simp
qed

lemma sextets_of_two:
  fixes a b :: nat
  assumes "b < 256"
  shows "(a mod 4 * 16 + b div 16) mod 16 * 16 + (b mod 16 * 4) div 4 = b"
proof -
  from assms have h: "b div 16 < 16" by simp
  then have "(a mod 4 * 16 + b div 16) mod 16 = b div 16" by simp
  then show ?thesis by simp
qed

lemma sextets_of_one:
  fixes a :: nat
  shows "a div 4 * 4 + (a mod 4 * 16) div 16 = a"
  by simp

lemma sextet_bounds:
  fixes a b c :: nat
  assumes "a < 256" "b < 256" "c < 256"
  shows "a div 4 < 64" "a mod 4 * 16 + b div 16 < 64" "b mod 16 * 4 + c div 64 < 64"
    "c mod 64 < 64" "b mod 16 * 4 < 64" "a mod 4 * 16 < 64"
proof -
  from assms have h: "b div 16 < 16" "c div 64 < 4" by simp_all
  have m: "a mod 4 < 4" "b mod 16 < 16" by simp_all
  from assms show "a div 4 < 64" by simp
  from h(1) m(1) show "a mod 4 * 16 + b div 16 < 64" by linarith
  from h(2) m(2) show "b mod 16 * 4 + c div 64 < 64" by linarith
  show "c mod 64 < 64" by simp
  from m(2) show "b mod 16 * 4 < 64" by linarith
  from m(1) show "a mod 4 * 16 < 64" by linarith
qed

lemma base64_roundtrip:
  "\<forall>b\<in>set bs. b < 256 \<Longrightarrow> sextets_bytes (base64_sextets (Buffer_toString_base64 bs)) = bs"
proof (induction bs rule: Buffer_toString_base64.induct)
  case (1 a b c rest)
  then have r: "a < 256" "b < 256" "c < 256" by simp_all
  note s = sextet_bounds[OF r]
  from 1 have IH: "sextets_bytes (base64_sextets (Buffer_toString_base64 rest)) = rest" by simp
  show ?case
    by (simp only: Buffer_toString_base64.simps base64_sextets.simps option.case
        low_byte_base64_char low_byte_pad
        sextets_bytes.simps unbase64_base64_char[OF s(1)] unbase64_base64_char[OF s(2)]
        unbase64_base64_char[OF s(3)] unbase64_base64_char[OF s(4)] IH sextets_of_three[OF r(2,3)])
next
  case (2 a b)
  then have r: "a < 256" "b < 256" by simp_all
  note s = sextet_bounds[OF r r(2)]
  show ?case
    by (simp only: Buffer_toString_base64.simps base64_sextets.simps option.case
        low_byte_base64_char low_byte_pad
        sextets_bytes.simps unbase64_base64_char[OF s(1)] unbase64_base64_char[OF s(2)]
        unbase64_base64_char[OF s(5)] unbase64_pad sextets_of_two[OF r(2)]
        sextets_of_three(1)[OF r(2) r(2)] if_True simp_thms)
next
  case (3 a)
  then have r: "a < 256" by simp_all
  note s = sextet_bounds[OF r r r]
  show ?case
    by (simp only: Buffer_toString_base64.simps base64_sextets.simps option.case
        low_byte_base64_char low_byte_pad
        sextets_bytes.simps unbase64_base64_char[OF s(1)] unbase64_base64_char[OF s(6)]
        unbase64_pad sextets_of_one if_True simp_thms)
next
  case 4
  then show ?case by simp
qed


subsection \<open>Percent escapes\<close>

lemma hex_value_hex_digit: "d < 16 \<Longrightarrow> hex_value (hex_digit d) = Some d"
  by (auto simp: hex_value_def hex_digit_def)

lemma ParseHexOctet_hex_digits:
  assumes "b < 256"
  shows "ParseHexOctet (hex_digit (b div 16) # hex_digit (b mod 16) # r) = Some b"
proof -
  from assms have "b div 16 < 16" by simp
  then show ?thesis by (simp add: hex_value_hex_digit)
qed

lemma uriUnescaped_not_percent: "uriUnescaped c \<Longrightarrow> c \<noteq> 0x25"
  by (auto simp: uriUnescaped_def ascii_def)

lemma encodeURIComponent_ascii_step:
  assumes "c < 0x80" "\<not> uriUnescaped c" "encodeURIComponent cs = Inr u"
  shows "encodeURIComponent (c # cs) = Inr (0x25 # hex_digit (c div 16) # hex_digit (c mod 16) # u)"
  using assms
  by (simp add: is_low_surrogate_def is_high_surrogate_def utf8_encode_def percent_escape_def)

lemma decodeURIComponent_escape_step:
  assumes "c < 0x80" "decodeURIComponent u = Inr t"
  shows "decodeURIComponent (0x25 # hex_digit (c div 16) # hex_digit (c mod 16) # u) = Inr (c # t)"
proof -
  from assms(1) have "c < 256" by simp
  then have "ParseHexOctet (hex_digit (c div 16) # hex_digit (c mod 16) # u) = Some c"
    by (rule ParseHexOctet_hex_digits)
  with assms show ?thesis by (simp add: leading_ones_def)
qed

lemma uri_roundtrip_ascii:
  "\<forall>c\<in>set t. c < 0x80 \<Longrightarrow> \<exists>u. encodeURIComponent t = Inr u \<and> decodeURIComponent u = Inr t"
proof (induction t)
  case Nil
  then show ?case by simp
next
  case (Cons c t)
  then obtain u where u: "encodeURIComponent t = Inr u" "decodeURIComponent u = Inr t"
    by auto
  from Cons.prems have c: "c < 0x80" by simp
  show ?case
  proof (cases "uriUnescaped c")
    case True
    with u uriUnescaped_not_percent[OF True] show ?thesis by simp
  next
    case False
    from encodeURIComponent_ascii_step[OF c False u(1)] decodeURIComponent_escape_step[OF c u(2)]
    show ?thesis by blast
  qed
qed

lemma Buffer_toString_base64_ascii: "\<forall>c\<in>set (Buffer_toString_base64 bs). c < 0x80"
  by (induction bs rule: Buffer_toString_base64.induct) (simp_all add: base64_char_lt)

subsection \<open>The composition\<close>

lemma utf8_decode_concat:
  "\<forall>cp\<in>set cps. scalar_value cp \<Longrightarrow> utf8_decode (concat (map utf8_encode cps)) = cps"
  by (induction cps) (simp_all add: utf8_decode_encode)

lemma utf8_encode_concat_bytes:
  "\<forall>cp\<in>set cps. scalar_value cp \<Longrightarrow> \<forall>b\<in>set (concat (map utf8_encode cps)). b < 256"
  by (induction cps) (auto simp: scalar_value_def dest: utf8_encode_bytes)

lemma Buffer_utf8_roundtrip:
  assumes "valid_text s"
  shows "Buffer_toString (Buffer_from_utf8 s) = s"
    and "\<forall>b\<in>set (Buffer_from_utf8 s). b < 256"
proof -
  from valid_text_code_points[OF assms]
  have sc: "\<forall>cp\<in>set (utf16_code_points s). scalar_value cp"
    and r: "concat (map UTF16EncodeCodePoint (utf16_code_points s)) = s" by simp_all
  from utf8_decode_concat[OF sc] r show "Buffer_toString (Buffer_from_utf8 s) = s"
    by (simp add: Buffer_toString_def Buffer_from_utf8_def)
  from utf8_encode_concat_bytes[OF sc] show "\<forall>b\<in>set (Buffer_from_utf8 s). b < 256"
    by (simp add: Buffer_from_utf8_def)
qed

text \<open>
  Claim C2. For every valid text \<open>s\<close> the encoder yields a token, and \<open>decode\<close> of
  that token is \<open>s\<close>: \<open>decode\<close> is the inverse of the encoder. As a function of the
  logic, \<open>decode\<close> has no effect and depends on its argument only.
\<close>

theorem decode_encode:
  assumes "valid_text s"
  shows "\<exists>t. encode s = Inr t \<and> decode t = Inr s"
proof -
  let ?b64 = "Buffer_toString_base64 (Buffer_from_utf8 s)"
  from uri_roundtrip_ascii[OF Buffer_toString_base64_ascii]
  obtain t where t: "encodeURIComponent ?b64 = Inr t" "decodeURIComponent t = Inr ?b64"
    by blast
  from base64_roundtrip[OF Buffer_utf8_roundtrip(2)[OF assms]]
  have "Buffer_from_base64 ?b64 = Buffer_from_utf8 s" by (simp add: Buffer_from_base64_def)
  with t Buffer_utf8_roundtrip(1)[OF assms] have "encode s = Inr t \<and> decode t = Inr s"
    by (simp add: encode_def decode_def)
  then show ?thesis ..
qed

lemmas token_evals =
  ascii_def decode_def encode_def Buffer_toString_def Buffer_from_base64_def unbase64_def
  hex_value_def leading_ones_def UTF16EncodeCodePoint_def is_continuation_def
  Buffer_from_utf8_def utf8_encode_def base64_char_def uriUnescaped_def hex_digit_def
  percent_escape_def is_high_surrogate_def is_low_surrogate_def surrogate_pair_def

theorem decode_encode_witness:
  "valid_text [0x4F60, 0xD83D, 0xDE00]
   \<and> (\<exists>t. encode [0x4F60, 0xD83D, 0xDE00] = Inr t \<and> decode t = Inr [0x4F60, 0xD83D, 0xDE00])"
proof -
  have v: "valid_text [0x4F60, 0xD83D, 0xDE00]"
    by (simp add: is_high_surrogate_def is_low_surrogate_def)
  from v decode_encode[OF v] show ?thesis by blast
qed

section \<open>Failures of \<open>decode\<close>\<close>

lemma decodeURIComponent_no_percent:
  "0x25 \<notin> set t \<Longrightarrow> decodeURIComponent t = Inr t"
  by (induction t) simp_all

lemma decodeURIComponent_error:
  "decodeURIComponent t = Inl e \<Longrightarrow> e = URIError"
proof (induction t arbitrary: e rule: decodeURIComponent.induct)
  case 1
  then show ?case by simp
next
  case (2 c cs)
  show ?case
  proof (cases "decodeURIComponent (c # cs)")
    case (Inl a)
    with "2.prems" have "a = e" by simp
    from 2 show ?thesis
      by (auto simp: Let_def split: if_splits sum.splits option.splits)
  next
    case (Inr b)
    with "2.prems" show ?thesis by simp
  qed
qed

text \<open>
  Claim C3, as amended. \<open>decode\<close> fails only with the \<open>URIError\<close> of
  \<open>decodeURIComponent\<close>, and only on a token that holds a \<open>%\<close>. A token without
  \<open>%\<close> always decodes to a value, whatever its code units: each is read by its low
  byte, a byte outside the base64 alphabet is skipped, and ill-formed UTF-8 becomes
  U+FFFD.
\<close>

theorem decode_fails_only_in_percent_decoding:
  "(decode t = Inl e \<longrightarrow> e = URIError \<and> 0x25 \<in> set t)
   \<and> (0x25 \<notin> set t \<longrightarrow> decode t = Inr (Buffer_toString (Buffer_from_base64 t)))"
proof -
  have a: "0x25 \<notin> set t \<Longrightarrow> decode t = Inr (Buffer_toString (Buffer_from_base64 t))"
    by (simp add: decode_def decodeURIComponent_no_percent)
  have b: "decode t = Inl e \<Longrightarrow> e = URIError"
    by (auto simp: decode_def split: sum.splits dest: decodeURIComponent_error)
  show ?thesis
  proof (intro conjI impI)
    assume d: "decode t = Inl e"
    from b[OF d] show "e = URIError" .
    show "0x25 \<in> set t"
    proof (rule ccontr)
      assume "0x25 \<notin> set t"
      from a[OF this] d show False by simp
    qed
  next
    assume "0x25 \<notin> set t"
    then show "decode t = Inr (Buffer_toString (Buffer_from_base64 t))" by (rule a)
  qed
qed

theorem decode_fails_only_in_percent_decoding_witness:
  "0x25 \<notin> set (ascii ''Rm F!'') \<and> decode (ascii ''Rm F!'') = Inr (ascii ''Fa'')
   \<and> 0x25 \<notin> set [0x141, 0x141, 0x141, 0x141 :: nat]
   \<and> decode [0x141, 0x141, 0x141, 0x141] = Inr [0, 0, 0]
   \<and> decode (ascii ''%'') = Inl URIError \<and> 0x25 \<in> set (ascii ''%'')"
proof -
  have n: "0x25 \<notin> set (ascii ''Rm F!'')"
    "0x25 \<notin> set [0x141, 0x141, 0x141, 0x141 :: nat]"
    by (simp_all add: ascii_def)
  have d: "decode (ascii ''%'') = Inl URIError" by (simp add: token_evals)
  from decode_fails_only_in_percent_decoding[of "ascii ''Rm F!''" URIError] n
    decode_fails_only_in_percent_decoding[of "[0x141, 0x141, 0x141, 0x141]" URIError]
    decode_fails_only_in_percent_decoding[of "ascii ''%''" URIError] d
  show ?thesis by (simp add: token_evals)
qed

text \<open>
  Claim C3 as stated fails: the token \<open>!\<close> is not valid base64, and the token
  \<open>%2Fw%3D%3D\<close> is the base64 of the byte \<open>0xFF\<close>, which is not valid UTF-8; \<open>decode\<close>
  returns a value for both. So it does for the escape \<open>%C5%99\<close> followed by \<open>Q\<close>,
  which is not valid base64 either: the code unit \<open>0x159\<close> is read as \<open>Y\<close>.
\<close>

theorem decode_lenient_counterexample:
  "(decodeURIComponent (ascii ''!'') = Inr (ascii ''!'') \<and> \<not> valid_base64 (ascii ''!'')
      \<and> decode (ascii ''!'') = Inr [])
   \<and> (decodeURIComponent (ascii ''%C5%99Q'') = Inr [0x159, 0x51]
      \<and> \<not> valid_base64 [0x159, 0x51]
      \<and> decode (ascii ''%C5%99Q'') = Inr (ascii ''a''))
   \<and> (decodeURIComponent (ascii ''%2Fw%3D%3D'') = Inr (ascii ''/w=='')
      \<and> valid_base64 (ascii ''/w=='')
      \<and> Buffer_from_base64 (ascii ''/w=='') = [0xFF] \<and> \<not> valid_utf8 [0xFF]
      \<and> decode (ascii ''%2Fw%3D%3D'') = Inr [0xFFFD])"
  by (simp add: token_evals valid_base64_def valid_utf8_def)

section \<open>The filter of \<open>getFilteredLibraryItems\<close>\<close>

lemma searchGroups_no_dot: "g \<in> set searchGroups \<Longrightarrow> g \<noteq> [] \<and> 0x2E \<notin> set g"
  by (auto simp: searchGroups_def ascii_def)

lemma ascii_dot: "ascii ''.'' = [0x2E]"
  by (simp add: ascii_def)

lemma prefix_before_delimiter_unique:
  assumes "startsWith f (g @ [d])" "startsWith f (h @ [d])" "d \<notin> set g" "d \<notin> set h"
  shows "g = h"
  using assms
proof (induction g arbitrary: h f)
  case Nil
  then show ?case
    by (cases h; cases f) (auto simp: startsWith_def)
next
  case (Cons a g)
  show ?case
  proof (cases h)
    case Nil
    with Cons.prems show ?thesis by (cases f) (auto simp: startsWith_def)
  next
    case (Cons b h')
    with Cons.prems obtain f' where f: "f = a # f'" "a = b"
      by (cases f) (auto simp: startsWith_def)
    with Cons.prems Cons have "startsWith f' (g @ [d])" "startsWith f' (h' @ [d])"
      "d \<notin> set g" "d \<notin> set h'"
      by (auto simp: startsWith_def)
    from Cons.IH[OF this] f Cons show ?thesis by simp
  qed
qed

lemma find_unique:
  assumes "g \<in> set xs" "P g" "\<forall>h\<in>set xs. P h \<longrightarrow> h = g"
  shows "find P xs = Some g"
  using assms
proof (induction xs)
  case Nil
  then show ?case by simp
next
  case (Cons x xs)
  show ?case
  proof (cases "P x")
    case True
    with Cons.prems(3) have "x = g" by simp
    with True show ?thesis by simp
  next
    case False
    with Cons.prems(1,2) have "g \<in> set xs" by auto
    moreover from Cons.prems(3) have "\<forall>h\<in>set xs. P h \<longrightarrow> h = g" by simp
    ultimately have "find P xs = Some g" using Cons.prems(2) by (intro Cons.IH)
    with False show ?thesis by simp
  qed
qed

lemma find_none: "(\<forall>h\<in>set xs. \<not> P h) \<Longrightarrow> find P xs = None"
  by (induction xs) simp_all

lemma replace_prefix:
  assumes "p \<noteq> []" "startsWith f p"
  shows "replace f p [] = drop (length p) f"
  using assms by (cases f) (auto simp: startsWith_def)

lemma find_searchGroup:
  assumes "g \<in> set searchGroups" "startsWith f (g @ ascii ''.'')"
  shows "find (\<lambda>g. startsWith f (g @ ascii ''.'')) searchGroups = Some g"
proof (rule find_unique[OF assms(1)])
  show "startsWith f (g @ ascii ''.'')" by (rule assms(2))
  show "\<forall>h\<in>set searchGroups. startsWith f (h @ ascii ''.'') \<longrightarrow> h = g"
  proof (intro ballI impI)
    fix h assume h: "h \<in> set searchGroups" "startsWith f (h @ ascii ''.'')"
    from prefix_before_delimiter_unique[of f h "0x2E" g] h assms searchGroups_no_dot
    show "h = g" by (simp add: ascii_dot)
  qed
qed

lemma startsWith_nonempty: "startsWith f (g @ [d]) \<Longrightarrow> f \<noteq> []"
  unfolding startsWith_def by (cases f) simp_all

text \<open>
  Claim C1. A \<open>filterBy\<close> that is \<open>null\<close> or empty gives no filter: group and value
  are both \<open>null\<close>. A \<open>filterBy\<close> that starts with \<open>g.\<close> for a group \<open>g\<close> of the
  fixed list gives the group \<open>g\<close> and, as value, \<open>decode\<close> of \<open>filterBy\<close> without
  that prefix (the error of \<open>decode\<close>, if it throws). Every other \<open>filterBy\<close> is the
  group itself, with the value \<open>null\<close>.
\<close>

theorem parseFilterBy_spec:
  "(filterBy' = None \<or> filterBy' = Some [] \<longrightarrow> parseFilterBy filterBy' = Inr (None, None))
   \<and> (\<forall>g\<in>set searchGroups. startsWith f (g @ ascii ''.'') \<longrightarrow>
        parseFilterBy (Some f) =
          (case decode (drop (length g + 1) f) of
             Inl e \<Rightarrow> Inl e
           | Inr v \<Rightarrow> Inr (Some g, Some v)))
   \<and> (f \<noteq> [] \<and> (\<forall>g\<in>set searchGroups. \<not> startsWith f (g @ ascii ''.'')) \<longrightarrow>
        parseFilterBy (Some f) = Inr (Some f, None))"
proof (intro conjI impI ballI)
  assume "filterBy' = None \<or> filterBy' = Some []"
  then show "parseFilterBy filterBy' = Inr (None, None)"
  proof
    assume "filterBy' = None"
    then show ?thesis by (simp add: parseFilterBy_def)
  next
    assume "filterBy' = Some []"
    then show ?thesis by (simp add: parseFilterBy_def truthy_string_def)
  qed
next
  fix g assume g: "g \<in> set searchGroups" "startsWith f (g @ ascii ''.'')"
  from g(2) have ne: "f \<noteq> []" unfolding ascii_dot by (rule startsWith_nonempty)
  from searchGroups_no_dot[OF g(1)] have gne: "g \<noteq> []" by simp
  have "replace f (g @ ascii ''.'') [] = drop (length (g @ ascii ''.'')) f"
    using g(2) by (intro replace_prefix) (simp_all add: ascii_dot)
  then have r: "replace f (g @ ascii ''.'') [] = drop (length g + 1) f"
    by (simp add: ascii_dot)
  have t: "truthy_string (Some f)" "truthy_string (Some g)"
    by (simp_all add: truthy_string_def ne gne)
  show "parseFilterBy (Some f) =
          (case decode (drop (length g + 1) f) of
             Inl e \<Rightarrow> Inl e
           | Inr v \<Rightarrow> Inr (Some g, Some v))"
  proof -
    have fg: "find (\<lambda>g. startsWith f (g @ ascii ''.'')) searchGroups = Some g"
      using g by (rule find_searchGroup)
    show ?thesis
      by (simp only: parseFilterBy_def Let_def fg option.case t r if_True if_False
          not_True_eq_False)
  qed
next
  assume a: "f \<noteq> [] \<and> (\<forall>g\<in>set searchGroups. \<not> startsWith f (g @ ascii ''.''))"
  then have n: "find (\<lambda>g. startsWith f (g @ ascii ''.'')) searchGroups = None"
    by (intro find_none) simp
  from a have t: "truthy_string (Some f)" by (simp add: truthy_string_def)
  have f: "\<not> truthy_string None" by (simp add: truthy_string_def)
  show "parseFilterBy (Some f) = Inr (Some f, None)"
    by (simp only: parseFilterBy_def Let_def n option.case t f if_True if_False
        not_True_eq_False)
qed

text \<open>
  The examples of the claim: \<open>genres.\<close> followed by the token of \<open>Fantasy\<close>, and a
  string with no known prefix. A third example has code units above \<open>0xFF\<close> after
  \<open>authors.\<close>: four times U+0141, which the decoder reads as \<open>AAAA\<close>.
\<close>

theorem parseFilterBy_spec_witness:
  "parseFilterBy None = Inr (None, None)
   \<and> encode (ascii ''Fantasy'') = Inr (ascii ''RmFudGFzeQ%3D%3D'')
   \<and> parseFilterBy (Some (ascii ''genres.RmFudGFzeQ%3D%3D''))
       = Inr (Some (ascii ''genres''), Some (ascii ''Fantasy''))
   \<and> parseFilterBy (Some (ascii ''authors.'' @ [0x141, 0x141, 0x141, 0x141]))
       = Inr (Some (ascii ''authors''), Some [0, 0, 0])
   \<and> parseFilterBy (Some (ascii ''somecustomfield''))
       = Inr (Some (ascii ''somecustomfield''), None)"
proof -
  have g: "ascii ''genres'' \<in> set searchGroups"
    "startsWith (ascii ''genres.RmFudGFzeQ%3D%3D'') (ascii ''genres'' @ ascii ''.'')"
    by (simp_all add: searchGroups_def startsWith_def ascii_def)
  have d: "decode (drop (length (ascii ''genres'') + 1) (ascii ''genres.RmFudGFzeQ%3D%3D''))
             = Inr (ascii ''Fantasy'')"
    by (simp add: token_evals)
  have ga: "ascii ''authors'' \<in> set searchGroups"
    "startsWith (ascii ''authors.'' @ [0x141, 0x141, 0x141, 0x141]) (ascii ''authors'' @ ascii ''.'')"
    by (simp_all add: searchGroups_def startsWith_def ascii_def)
  have da: "decode (drop (length (ascii ''authors'') + 1)
                      (ascii ''authors.'' @ [0x141, 0x141, 0x141, 0x141]))
             = Inr [0, 0, 0]"
    by (simp add: token_evals)
  have n: "ascii ''somecustomfield'' \<noteq> []
      \<and> (\<forall>g\<in>set searchGroups. \<not> startsWith (ascii ''somecustomfield'') (g @ ascii ''.''))"
    by (simp add: searchGroups_def startsWith_def ascii_def)
  have e: "encode (ascii ''Fantasy'') = Inr (ascii ''RmFudGFzeQ%3D%3D'')"
    by (simp add: token_evals)
  from parseFilterBy_spec[of None "ascii ''genres.RmFudGFzeQ%3D%3D''"] g d
    parseFilterBy_spec[of None "ascii ''authors.'' @ [0x141, 0x141, 0x141, 0x141]"] ga da
    parseFilterBy_spec[of None "ascii ''somecustomfield''"] n e
  show ?thesis by simp
qed

section \<open>In-progress and continue-series shelves\<close>

text \<open>
  Claim C4. For a library whose \<open>mediaType\<close> is not \<open>book\<close>, and for both values of
  \<open>ebook\<close>, \<open>getLibraryItemsInProgress\<close> returns no items and the count 0, and issues
  no call to the storage layer.
\<close>

theorem getLibraryItemsInProgress_non_book:
  assumes "library_mediaType lib \<noteq> JString (ascii ''book'')"
  shows "getLibraryItemsInProgress P storage lib userId incl lim ebook
           = (Inr \<lparr>libraryItems = [], count = JNumber 0\<rparr>, [])"
  using assms by (simp add: getLibraryItemsInProgress_def)

theorem getLibraryItemsInProgress_non_book_witness:
  "library_mediaType podcast_library \<noteq> JString (ascii ''book'')
   \<and> getLibraryItemsInProgress sample_projectors failing_storage podcast_library JNull []
         (JNumber 10) True = (Inr \<lparr>libraryItems = [], count = JNumber 0\<rparr>, [])
   \<and> getLibraryItemsInProgress sample_projectors one_item_storage podcast_library JNull []
         (JNumber 10) False = (Inr \<lparr>libraryItems = [], count = JNumber 0\<rparr>, [])"
proof -
  have m: "library_mediaType podcast_library \<noteq> JString (ascii ''book'')"
    by (simp add: podcast_library_def ascii_def)
  from m
    getLibraryItemsInProgress_non_book[OF m, where P = sample_projectors
      and storage = failing_storage and userId = JNull and incl = "[]" and lim = "JNumber 10"
      and ebook = True]
    getLibraryItemsInProgress_non_book[OF m, where P = sample_projectors
      and storage = one_item_storage and userId = JNull and incl = "[]" and lim = "JNumber 10"
      and ebook = False]
  show ?thesis by simp
qed

text \<open>
  Claim C5, as amended. \<open>getLibraryItemsContinueSeries\<close> has no guard on the media
  type: its result does not depend on \<open>library.mediaType\<close>. For every library it issues
  exactly one call, to the continue-series query of the book strategy. It rejects with
  the error of that query, or returns its count and one item for each row that the query
  returned, in the order of the rows: the minified item of the row, with the minified
  feed of the row as \<open>rssFeed\<close> when the row has a feed, and with the series of the row
  as \<open>media.metadata.series\<close> when the row has one. Its result is empty whenever the
  query returns no rows.
\<close>

theorem getLibraryItemsContinueSeries_delegates:
  "getLibraryItemsContinueSeries P storage (lib\<lparr>library_mediaType := m\<rparr>) userId incl lim
     = getLibraryItemsContinueSeries P storage lib userId incl lim
   \<and> snd (getLibraryItemsContinueSeries P storage lib userId incl lim)
       = [Book_getContinueSeriesLibraryItems (library_id lib) userId incl lim (JNumber 0)]
   \<and> (\<forall>e. storage (Book_getContinueSeriesLibraryItems (library_id lib) userId incl lim (JNumber 0))
             = Inl e
          \<longrightarrow> fst (getLibraryItemsContinueSeries P storage lib userId incl lim) = Inl e)
   \<and> (\<forall>r. storage (Book_getContinueSeriesLibraryItems (library_id lib) userId incl lim (JNumber 0))
             = Inr r
          \<longrightarrow> fst (getLibraryItemsContinueSeries P storage lib userId incl lim)
                = Inr \<lparr>libraryItems =
                         map (\<lambda>li. (getOldLibraryItem_toJSONMinified P li)
                                \<lparr>rssFeed :=
                                   (case li_rssFeed li of
                                      None \<Rightarrow> rssFeed (getOldLibraryItem_toJSONMinified P li)
                                    | Some f \<Rightarrow> Some (getOldFeed_toJSONMinified P f)),
                                 media_metadata_series :=
                                   (case li_series li of
                                      None \<Rightarrow> media_metadata_series
                                                (getOldLibraryItem_toJSONMinified P li)
                                    | Some sr \<Rightarrow> Some sr)\<rparr>)
                           (libraryItems r),
                       count = count r\<rparr>)"
proof -
  have a: "attach_feed_series P =
             (\<lambda>li. (getOldLibraryItem_toJSONMinified P li)
                \<lparr>rssFeed :=
                   (case li_rssFeed li of
                      None \<Rightarrow> rssFeed (getOldLibraryItem_toJSONMinified P li)
                    | Some f \<Rightarrow> Some (getOldFeed_toJSONMinified P f)),
                 media_metadata_series :=
                   (case li_series li of
                      None \<Rightarrow> media_metadata_series (getOldLibraryItem_toJSONMinified P li)
                    | Some sr \<Rightarrow> Some sr)\<rparr>)"
    by (rule ext) (simp add: attach_feed_series_def attach_feed_def Let_def split: option.split)
  show ?thesis
    by (simp add: getLibraryItemsContinueSeries_def Let_def a split: sum.split)
qed

theorem getLibraryItemsContinueSeries_delegates_witness:
  "series_item_storage
      (Book_getContinueSeriesLibraryItems (library_id podcast_library) JNull [] (JNumber 10)
        (JNumber 0))
     = Inr \<lparr>libraryItems = [sample_item_in_series, sample_item], count = JNumber 12\<rparr>
   \<and> fst (getLibraryItemsContinueSeries sample_projectors series_item_storage
            podcast_library JNull [] (JNumber 10))
       = Inr \<lparr>libraryItems =
                [\<lparr>json = 8, rssFeed = Some 3, media_size = None,
                   media_metadata_series = Some 9\<rparr>,
                 \<lparr>json = 7, rssFeed = None, media_size = None,
                   media_metadata_series = None\<rparr>],
              count = JNumber 12\<rparr>"
proof -
  have s: "series_item_storage
      (Book_getContinueSeriesLibraryItems (library_id podcast_library) JNull [] (JNumber 10)
        (JNumber 0))
     = Inr \<lparr>libraryItems = [sample_item_in_series, sample_item], count = JNumber 12\<rparr>"
    by (simp add: series_item_storage_def)
  from getLibraryItemsContinueSeries_delegates[where P = sample_projectors
      and storage = series_item_storage and lib = podcast_library and m = JUndefined
      and userId = JNull and incl = "[]" and lim = "JNumber 10"] s
  show ?thesis
    by (simp add: sample_projectors_def sample_item_def sample_item_in_series_def)
qed

text \<open>
  Claim C5 as stated fails: for a podcast library the operation queries the book
  strategy, and returns what the query returns, here one item and the count 1; when
  the query rejects, the operation rejects.
\<close>

theorem getLibraryItemsContinueSeries_counterexample:
  "library_mediaType podcast_library \<noteq> JString (ascii ''book'')
   \<and> getLibraryItemsContinueSeries sample_projectors one_item_storage podcast_library JNull []
         (JNumber 10)
       = (Inr \<lparr>libraryItems =
                  [\<lparr>json = 7, rssFeed = None, media_size = None, media_metadata_series = None\<rparr>],
                count = JNumber 1\<rparr>,
          [Book_getContinueSeriesLibraryItems (JString (ascii ''lib_p'')) JNull [] (JNumber 10)
             (JNumber 0)])
   \<and> fst (getLibraryItemsContinueSeries sample_projectors failing_storage podcast_library
            JNull [] (JNumber 10)) = Inl StorageError"
  by (simp add: getLibraryItemsContinueSeries_def podcast_library_def one_item_storage_def
      failing_storage_def sample_projectors_def sample_item_def attach_feed_series_def
      attach_feed_def ascii_def)

section \<open>Dispatch on the media type\<close>

lemma parseFilterBy_error:
  assumes "parseFilterBy fb = Inl e"
  shows "e = URIError"
proof -
  from assms obtain t where "decode t = Inl e"
    by (auto simp: parseFilterBy_def Let_def split: option.splits if_splits sum.splits)
  then have "decodeURIComponent t = Inl e"
    by (auto simp: decode_def split: sum.splits)
  then show ?thesis by (rule decodeURIComponent_error)
qed

text \<open>
  Claim C10, as amended. \<open>getFilteredLibraryItems\<close> parses the filter before it looks
  at the media type. When the token of a known group does not decode, the operation
  rejects with the \<open>URIError\<close> of \<open>decode\<close> and calls no strategy, whatever the media
  type; it rejects for no other reason. When the filter parses, it returns the answer of
  the book strategy if \<open>options.mediaType\<close> is the string \<open>book\<close>, and the answer of the
  podcast strategy for every other value, \<open>undefined\<close> included: the one call it issues
  is the book call in the first case and the podcast call otherwise. \<open>collapseseries\<close> is
  an argument of the book call only: off the book branch the result does not depend on
  it.
\<close>

theorem getFilteredLibraryItems_dispatch:
  "(\<forall>e. parseFilterBy (filterBy opts) = Inl e \<longrightarrow>
        e = URIError \<and> getFilteredLibraryItems storage lib userId opts = (Inl URIError, []))
   \<and> (\<forall>filterGroup filterValue.
        parseFilterBy (filterBy opts) = Inr (filterGroup, filterValue) \<longrightarrow>
        (mediaType opts = JString (ascii ''book'') \<longrightarrow>
            getFilteredLibraryItems storage lib userId opts =
              (storage (Book_getFilteredLibraryItems (library_id lib) userId filterGroup
                 filterValue (sortBy opts) (sortDesc opts) (collapseseries opts)
                 (include_flags opts) (limit opts) (offset opts)),
               [Book_getFilteredLibraryItems (library_id lib) userId filterGroup
                 filterValue (sortBy opts) (sortDesc opts) (collapseseries opts)
                 (include_flags opts) (limit opts) (offset opts)]))
         \<and> (mediaType opts \<noteq> JString (ascii ''book'') \<longrightarrow>
            getFilteredLibraryItems storage lib userId opts =
              (storage (Podcast_getFilteredLibraryItems (library_id lib) userId filterGroup
                 filterValue (sortBy opts) (sortDesc opts) (include_flags opts) (limit opts)
                 (offset opts)),
               [Podcast_getFilteredLibraryItems (library_id lib) userId filterGroup
                 filterValue (sortBy opts) (sortDesc opts) (include_flags opts) (limit opts)
                 (offset opts)])
            \<and> (\<forall>c. getFilteredLibraryItems storage lib userId (opts\<lparr>collapseseries := c\<rparr>)
                     = getFilteredLibraryItems storage lib userId opts)))"
proof (intro conjI allI impI)
  fix e assume p: "parseFilterBy (filterBy opts) = Inl e"
  from parseFilterBy_error[OF p] show "e = URIError" .
  with p show "getFilteredLibraryItems storage lib userId opts = (Inl URIError, [])"
    by (simp add: getFilteredLibraryItems_def)
next
  fix filterGroup filterValue
  assume p: "parseFilterBy (filterBy opts) = Inr (filterGroup, filterValue)"
    and m: "mediaType opts = JString (ascii ''book'')"
  then show "getFilteredLibraryItems storage lib userId opts =
              (storage (Book_getFilteredLibraryItems (library_id lib) userId filterGroup
                 filterValue (sortBy opts) (sortDesc opts) (collapseseries opts)
                 (include_flags opts) (limit opts) (offset opts)),
               [Book_getFilteredLibraryItems (library_id lib) userId filterGroup
                 filterValue (sortBy opts) (sortDesc opts) (collapseseries opts)
                 (include_flags opts) (limit opts) (offset opts)])"
    by (simp add: getFilteredLibraryItems_def Let_def)
next
  fix filterGroup filterValue
  assume p: "parseFilterBy (filterBy opts) = Inr (filterGroup, filterValue)"
    and m: "mediaType opts \<noteq> JString (ascii ''book'')"
  then show "getFilteredLibraryItems storage lib userId opts =
              (storage (Podcast_getFilteredLibraryItems (library_id lib) userId filterGroup
                 filterValue (sortBy opts) (sortDesc opts) (include_flags opts) (limit opts)
                 (offset opts)),
               [Podcast_getFilteredLibraryItems (library_id lib) userId filterGroup
                 filterValue (sortBy opts) (sortDesc opts) (include_flags opts) (limit opts)
                 (offset opts)])"
    by (simp add: getFilteredLibraryItems_def Let_def)
next
  fix filterGroup filterValue c
  assume p: "parseFilterBy (filterBy opts) = Inr (filterGroup, filterValue)"
    and m: "mediaType opts \<noteq> JString (ascii ''book'')"
  then show "getFilteredLibraryItems storage lib userId (opts\<lparr>collapseseries := c\<rparr>)
               = getFilteredLibraryItems storage lib userId opts"
    by (simp add: getFilteredLibraryItems_def Let_def)
qed

lemma parseFilterBy_genres:
  "parseFilterBy (Some (ascii ''genres.'' @ token)) =
     (case decode token of Inl e \<Rightarrow> Inl e | Inr v \<Rightarrow> Inr (Some (ascii ''genres''), Some v))"
proof -
  let ?f = "ascii ''genres.'' @ token"
  have g: "ascii ''genres'' \<in> set searchGroups" by (simp add: searchGroups_def)
  have s: "startsWith ?f (ascii ''genres'' @ ascii ''.'')"
    by (simp add: startsWith_def ascii_def)
  have fg: "find (\<lambda>g. startsWith ?f (g @ ascii ''.'')) searchGroups = Some (ascii ''genres'')"
    using g s by (rule find_searchGroup)
  have "replace ?f (ascii ''genres'' @ ascii ''.'') [] = drop (length (ascii ''genres'' @ ascii ''.'')) ?f"
    using s by (intro replace_prefix) (simp_all add: ascii_def)
  then have r: "replace ?f (ascii ''genres'' @ ascii ''.'') [] = token"
    by (simp add: ascii_def)
  have t: "truthy_string (Some ?f)" "truthy_string (Some (ascii ''genres''))"
    by (simp_all add: truthy_string_def ascii_def)
  show ?thesis
    by (simp only: parseFilterBy_def Let_def fg option.case t r if_True if_False
        not_True_eq_False)
qed

theorem getFilteredLibraryItems_dispatch_witness:
  "parseFilterBy (filterBy sample_options) = Inr (Some (ascii ''genres''), Some (ascii ''Fantasy''))
   \<and> mediaType sample_options \<noteq> JString (ascii ''book'')
   \<and> getFilteredLibraryItems one_item_storage book_library JNull sample_options =
       (Inr \<lparr>libraryItems = [sample_item], count = JNumber 1\<rparr>,
        [Podcast_getFilteredLibraryItems (JString (ascii ''lib_b'')) JNull
           (Some (ascii ''genres'')) (Some (ascii ''Fantasy'')) (JString (ascii ''addedAt''))
           (JBool True) [] (JNumber 10) (JNumber 0)])
   \<and> getFilteredLibraryItems one_item_storage book_library JNull
         (sample_options\<lparr>mediaType := JString (ascii ''book'')\<rparr>) =
       (Inr \<lparr>libraryItems = [sample_item], count = JNumber 1\<rparr>,
        [Book_getFilteredLibraryItems (JString (ascii ''lib_b'')) JNull
           (Some (ascii ''genres'')) (Some (ascii ''Fantasy'')) (JString (ascii ''addedAt''))
           (JBool True) (JBool True) [] (JNumber 10) (JNumber 0)])
   \<and> parseFilterBy (filterBy (sample_options\<lparr>filterBy := Some (ascii ''genres.%'')\<rparr>))
       = Inl URIError
   \<and> getFilteredLibraryItems one_item_storage book_library JNull
         (sample_options\<lparr>filterBy := Some (ascii ''genres.%''),
                          mediaType := JString (ascii ''book'')\<rparr>) = (Inl URIError, [])"
proof -
  have d: "decode (ascii ''RmFudGFzeQ%3D%3D'') = Inr (ascii ''Fantasy'')"
    "decode (ascii ''%'') = Inl URIError"
    by (simp_all add: token_evals)
  have f: "ascii ''genres.RmFudGFzeQ%3D%3D'' = ascii ''genres.'' @ ascii ''RmFudGFzeQ%3D%3D''"
    "ascii ''genres.%'' = ascii ''genres.'' @ ascii ''%''"
    by (simp_all add: ascii_def)
  have p: "parseFilterBy (filterBy sample_options)
             = Inr (Some (ascii ''genres''), Some (ascii ''Fantasy''))"
    unfolding sample_options_def f by (simp add: parseFilterBy_genres d)
  have p': "parseFilterBy (filterBy (sample_options\<lparr>mediaType := JString (ascii ''book'')\<rparr>))
             = Inr (Some (ascii ''genres''), Some (ascii ''Fantasy''))"
    using p by simp
  have q: "parseFilterBy (filterBy (sample_options\<lparr>filterBy := Some (ascii ''genres.%''),
                          mediaType := JString (ascii ''book'')\<rparr>)) = Inl URIError"
    "parseFilterBy (filterBy (sample_options\<lparr>filterBy := Some (ascii ''genres.%'')\<rparr>))
       = Inl URIError"
    unfolding f by (simp_all add: parseFilterBy_genres d)
  have m: "mediaType sample_options \<noteq> JString (ascii ''book'')"
    by (simp add: sample_options_def)
  from getFilteredLibraryItems_dispatch[where opts = sample_options
      and storage = one_item_storage and lib = book_library and userId = JNull,
      THEN conjunct2, rule_format, OF p] m
    getFilteredLibraryItems_dispatch[where
      opts = "sample_options\<lparr>mediaType := JString (ascii ''book'')\<rparr>"
      and storage = one_item_storage and lib = book_library and userId = JNull,
      THEN conjunct2, rule_format, OF p']
    getFilteredLibraryItems_dispatch[where
      opts = "sample_options\<lparr>filterBy := Some (ascii ''genres.%''),
                          mediaType := JString (ascii ''book'')\<rparr>"
      and storage = one_item_storage and lib = book_library and userId = JNull,
      THEN conjunct1, rule_format, OF q(1)]
    p q(2)
  show ?thesis
    by (simp add: sample_options_def book_library_def one_item_storage_def)
qed

text \<open>
  Claim C10 as stated fails: with the filter \<open>genres.%\<close> and no media type, the
  operation rejects with a \<open>URIError\<close> and the podcast strategy is not called.
\<close>

theorem getFilteredLibraryItems_rejects_counterexample:
  "mediaType (sample_options\<lparr>filterBy := Some (ascii ''genres.%'')\<rparr>) = JUndefined
   \<and> JUndefined \<noteq> JString (ascii ''book'')
   \<and> getFilteredLibraryItems one_item_storage book_library JNull
         (sample_options\<lparr>filterBy := Some (ascii ''genres.%'')\<rparr>) = (Inl URIError, [])"
proof -
  have d: "decode (ascii ''%'') = Inl URIError" by (simp add: token_evals)
  have f: "ascii ''genres.%'' = ascii ''genres.'' @ ascii ''%''" by (simp add: ascii_def)
  have q: "parseFilterBy (Some (ascii ''genres.%'')) = Inl URIError"
    unfolding f parseFilterBy_genres d by simp
  show ?thesis
    by (simp add: getFilteredLibraryItems_def q sample_options_def)
qed

section \<open>The sort of the books of a series\<close>

lemma mset_insert_sorted: "mset (insert_sorted c x ys) = add_mset x (mset ys)"
  by (induction ys) simp_all


lemma mset_foldl_insert_sorted:
  "mset (foldl (\<lambda>sorted x. insert_sorted c x sorted) acc xs) = mset acc + mset xs"
  by (induction xs arbitrary: acc) (simp_all add: mset_insert_sorted)

lemma mset_Array_sort: "mset (Array_sort c xs) = mset xs"
  by (simp add: Array_sort_def mset_foldl_insert_sorted)







section \<open>The assembly of the series\<close>

lemma detach_books_Inr:
  "detach_books G bss = (Inr olds, bss') \<Longrightarrow>
     bss' = map detached bss \<and> map Some olds = map (projected G) bss"
proof (induction bss arbitrary: olds bss')
  case Nil
  then show ?case by simp
next
  case (Cons bs rest)
  from Cons.prems obtain li where li: "libraryItem (book bs) = Some li"
    by (cases "libraryItem (book bs)") simp_all
  from Cons.prems li obtain olds0 rest' where r: "detach_books G rest = (Inr olds0, rest')"
    by (cases "detach_books G rest"; cases "fst (detach_books G rest)") (auto simp: Let_def)
  from Cons.prems li r have e: "olds = G li ((book bs)\<lparr>libraryItem := None\<rparr>) # olds0"
    "bss' = bs\<lparr>book := (book bs)\<lparr>libraryItem := None\<rparr>\<rparr> # rest'"
    by (simp_all add: Let_def)
  from Cons.IH[OF r] e li show ?case by (simp add: detached_def projected_def)
qed

lemma assemble_series_Inr:
  assumes "assemble_series P lc s = (Inr old, s')"
  shows "s' = s\<lparr>bookSeries := map detached (Array_sort (compareSequence lc) (bookSeries s))\<rparr>"
    and "map Some (books old)
           = map (projected (media_getOldLibraryItem_toJSONMinified P))
               (Array_sort (compareSequence lc) (bookSeries s))"
proof -
  let ?sorted = "Array_sort (compareSequence lc) (bookSeries s)"
  let ?G = "media_getOldLibraryItem_toJSONMinified P"
  from assms obtain olds bss where d: "detach_books ?G ?sorted = (Inr olds, bss)"
    by (cases "detach_books ?G ?sorted"; cases "fst (detach_books ?G ?sorted)")
       (auto simp: assemble_series_def Let_def)
  from detach_books_Inr[OF d] have b: "bss = map detached ?sorted"
    "map Some olds = map (projected ?G) ?sorted" by simp_all
  from assms d have "s' = s\<lparr>bookSeries := bss\<rparr>" "books old = olds"
    by (auto simp: assemble_series_def Let_def)
  with b show "s' = s\<lparr>bookSeries := map detached ?sorted\<rparr>"
    and "map Some (books old) = map (projected ?G) ?sorted" by simp_all
qed

lemma assemble_all_Inr:
  "assemble_all P lc ss = (Inr olds, ss') \<Longrightarrow>
     ss' = map (\<lambda>s. s\<lparr>bookSeries :=
                      map detached (Array_sort (compareSequence lc) (bookSeries s))\<rparr>) ss
     \<and> list_all2 (\<lambda>s old. map Some (books old)
                    = map (projected (media_getOldLibraryItem_toJSONMinified P))
                        (Array_sort (compareSequence lc) (bookSeries s))) ss olds"
proof (induction ss arbitrary: olds ss')
  case Nil
  then show ?case by simp
next
  case (Cons s ss)
  from Cons.prems obtain old s1 where a: "assemble_series P lc s = (Inr old, s1)"
    by (cases "assemble_series P lc s"; cases "fst (assemble_series P lc s)") auto
  from Cons.prems a obtain olds0 ss1 where r: "assemble_all P lc ss = (Inr olds0, ss1)"
    by (cases "assemble_all P lc ss"; cases "fst (assemble_all P lc ss)") auto
  from Cons.prems a r have e: "olds = old # olds0" "ss' = s1 # ss1" by simp_all
  from Cons.IH[OF r] assemble_series_Inr[OF a] e show ?case by simp
qed

lemma getSeriesMostRecentlyAdded_Inr:
  assumes "getSeriesMostRecentlyAdded P lc findAndCountAll lib incl lim = (Inr result, rows', calls)"
  shows "\<exists>loaded.
           findAndCountAll (Series_findAndCountAll (library_id lib) lim (ascii ''rssfeed'' \<in> set incl))
             = Inr loaded
           \<and> assemble_all P lc (rows loaded) = (Inr (series result), rows')
           \<and> series_count result = found_count loaded
           \<and> calls = [Series_findAndCountAll (library_id lib) lim (ascii ''rssfeed'' \<in> set incl)]"
proof -
  let ?call = "Series_findAndCountAll (library_id lib) lim (ascii ''rssfeed'' \<in> set incl)"
  from assms obtain loaded where l: "findAndCountAll ?call = Inr loaded"
    by (cases "findAndCountAll ?call") (auto simp: getSeriesMostRecentlyAdded_def Let_def)
  from assms l obtain olds where a: "assemble_all P lc (rows loaded) = (Inr olds, rows')"
    by (cases "assemble_all P lc (rows loaded)"; cases "fst (assemble_all P lc (rows loaded))")
       (auto simp: getSeriesMostRecentlyAdded_def Let_def)
  from assms l a have "series result = olds" "series_count result = found_count loaded"
    "calls = [?call]"
    by (auto simp: getSeriesMostRecentlyAdded_def Let_def)
  with l a show ?thesis by auto
qed

section \<open>The collation of digit strings\<close>






















section \<open>The recent series shelf\<close>

lemmas series_evals =
  getSeriesMostRecentlyAdded_def sample_findAndCountAll_def sample_series_projectors_def
  series_A_def series_B_def sample_bookSeries_def assemble_series_def Array_sort_def
  compareSequence_def truthy_string_def digits_localeCompare_def collation_key_def
  digit_values_def segment_value_def ascii_def book_library_def Let_def

lemma sample_series_run:
  "getSeriesMostRecentlyAdded sample_series_projectors digits_localeCompare
     sample_findAndCountAll book_library [] (JNumber 10)
   = (Inr \<lparr>series =
             [\<lparr>oldSeries_json = 1, oldSeries_rssFeed = None,
               books =
                 [\<lparr>json = (102, 2), rssFeed = None, media_size = None,
                    media_metadata_series = None\<rparr>,
                  \<lparr>json = (101, 1), rssFeed = None, media_size = None,
                    media_metadata_series = None\<rparr>,
                  \<lparr>json = (103, 3), rssFeed = None, media_size = None,
                    media_metadata_series = None\<rparr>,
                  \<lparr>json = (104, 4), rssFeed = None, media_size = None,
                    media_metadata_series = None\<rparr>]\<rparr>,
              \<lparr>oldSeries_json = 2, oldSeries_rssFeed = None, books = []\<rparr>],
           series_count = JNumber 2\<rparr>,
      [\<lparr>series_entity = 1, feeds = None,
        bookSeries =
          [\<lparr>sequence = Some (ascii ''1''), book = \<lparr>book_entity = 2, libraryItem = None\<rparr>\<rparr>,
           \<lparr>sequence = Some (ascii ''3''), book = \<lparr>book_entity = 1, libraryItem = None\<rparr>\<rparr>,
           \<lparr>sequence = Some (ascii ''10''), book = \<lparr>book_entity = 3, libraryItem = None\<rparr>\<rparr>,
           \<lparr>sequence = None, book = \<lparr>book_entity = 4, libraryItem = None\<rparr>\<rparr>]\<rparr>,
       series_B],
      [Series_findAndCountAll (JString (ascii ''lib_b'')) (JNumber 10) False])"
  by (simp add: series_evals)





lemma map_key_detached:
  "map (\<lambda>bs. (sequence bs, book_entity (book bs))) (map detached ys)
     = map (\<lambda>bs. (sequence bs, book_entity (book bs))) ys"
  by (induction ys) (simp_all add: detached_def)

lemma mset_detached_sorted:
  "mset (map (\<lambda>bs. (sequence bs, book_entity (book bs))) (map detached (Array_sort c xs)))
     = mset (map (\<lambda>bs. (sequence bs, book_entity (book bs))) xs)"
  by (simp only: map_key_detached mset_map mset_Array_sort)

lemma list_all_detached: "list_all (\<lambda>bs. libraryItem (book bs) = None) (map detached xs)"
  by (simp add: list_all_iff detached_def)

text \<open>
  Claim C9, as amended. \<open>getSeriesMostRecentlyAdded\<close> updates the rows it loaded: when
  it returns, each loaded series has its \<open>bookSeries\<close> in sorted order, and each book
  of these has lost its \<open>libraryItem\<close>. Nothing else of the rows changes: the series
  keep their own properties and their feeds, and the \<open>bookSeries\<close> of a series are the
  same rows as before, with the same sequences and the same books.
\<close>

theorem series_rows_after_call:
  assumes "getSeriesMostRecentlyAdded P lc findAndCountAll lib incl lim = (Inr result, rows', calls)"
  shows "\<exists>loaded.
           findAndCountAll (Series_findAndCountAll (library_id lib) lim (ascii ''rssfeed'' \<in> set incl))
             = Inr loaded
           \<and> rows' = map (\<lambda>s. s\<lparr>bookSeries :=
                                  map detached (Array_sort (compareSequence lc) (bookSeries s))\<rparr>)
                        (rows loaded)
           \<and> list_all2
                (\<lambda>s s'. series_entity s' = series_entity s \<and> feeds s' = feeds s
                    \<and> mset (map (\<lambda>bs. (sequence bs, book_entity (book bs))) (bookSeries s'))
                        = mset (map (\<lambda>bs. (sequence bs, book_entity (book bs))) (bookSeries s))
                    \<and> list_all (\<lambda>bs. libraryItem (book bs) = None) (bookSeries s'))
                (rows loaded) rows'"
proof -
  from getSeriesMostRecentlyAdded_Inr[OF assms] obtain loaded where
    l: "findAndCountAll (Series_findAndCountAll (library_id lib) lim (ascii ''rssfeed'' \<in> set incl))
          = Inr loaded"
    and a: "assemble_all P lc (rows loaded) = (Inr (series result), rows')"
    by blast
  let ?upd = "\<lambda>s. s\<lparr>bookSeries := map detached (Array_sort (compareSequence lc) (bookSeries s))\<rparr>"
  from assemble_all_Inr[OF a] have r: "rows' = map ?upd (rows loaded)" by simp
  have "list_all2
          (\<lambda>s s'. series_entity s' = series_entity s \<and> feeds s' = feeds s
              \<and> mset (map (\<lambda>bs. (sequence bs, book_entity (book bs))) (bookSeries s'))
                  = mset (map (\<lambda>bs. (sequence bs, book_entity (book bs))) (bookSeries s))
              \<and> list_all (\<lambda>bs. libraryItem (book bs) = None) (bookSeries s'))
          (rows loaded) (map ?upd (rows loaded))"
    unfolding list_all2_map2
  proof (rule list_all2_refl)
    fix s
    have b: "bookSeries (?upd s) = map detached (Array_sort (compareSequence lc) (bookSeries s))"
      by simp
    have k: "series_entity (?upd s) = series_entity s" "feeds (?upd s) = feeds s"
      by simp_all
    show "series_entity (?upd s) = series_entity s \<and> feeds (?upd s) = feeds s
            \<and> mset (map (\<lambda>bs. (sequence bs, book_entity (book bs))) (bookSeries (?upd s)))
                = mset (map (\<lambda>bs. (sequence bs, book_entity (book bs))) (bookSeries s))
            \<and> list_all (\<lambda>bs. libraryItem (book bs) = None) (bookSeries (?upd s))"
      unfolding b k using mset_detached_sorted list_all_detached by blast
  qed
  with l r show ?thesis by blast
qed

theorem series_rows_after_call_witness:
  "\<exists>loaded.
      sample_findAndCountAll
          (Series_findAndCountAll (library_id book_library) (JNumber 10)
            (ascii ''rssfeed'' \<in> set []))
        = Inr loaded
      \<and> fst (snd (getSeriesMostRecentlyAdded sample_series_projectors digits_localeCompare
                    sample_findAndCountAll book_library [] (JNumber 10)))
          = map (\<lambda>s. s\<lparr>bookSeries :=
                        map detached
                          (Array_sort (compareSequence digits_localeCompare) (bookSeries s))\<rparr>)
              (rows loaded)
      \<and> list_all2
           (\<lambda>s s'. series_entity s' = series_entity s \<and> feeds s' = feeds s
               \<and> mset (map (\<lambda>bs. (sequence bs, book_entity (book bs))) (bookSeries s'))
                   = mset (map (\<lambda>bs. (sequence bs, book_entity (book bs))) (bookSeries s))
               \<and> list_all (\<lambda>bs. libraryItem (book bs) = None) (bookSeries s'))
           (rows loaded)
           (fst (snd (getSeriesMostRecentlyAdded sample_series_projectors digits_localeCompare
                        sample_findAndCountAll book_library [] (JNumber 10))))"
  unfolding sample_series_run snd_conv fst_conv
  by (rule series_rows_after_call[OF sample_series_run])

text \<open>
  Claim C9 as stated fails: after the call on the sample rows, the first loaded series
  has its \<open>bookSeries\<close> in another order, and its books have no \<open>libraryItem\<close>.
\<close>

theorem series_rows_mutated_counterexample:
  "sample_findAndCountAll (Series_findAndCountAll (JString (ascii ''lib_b'')) (JNumber 10) False)
     = Inr \<lparr>rows = [series_A, series_B], found_count = JNumber 2\<rparr>
   \<and> fst (snd (getSeriesMostRecentlyAdded sample_series_projectors digits_localeCompare
                 sample_findAndCountAll book_library [] (JNumber 10)))
       \<noteq> [series_A, series_B]
   \<and> map (map (\<lambda>bs. (sequence bs, libraryItem (book bs))) \<circ> bookSeries) [series_A, series_B]
       = [[(Some (ascii ''3''), Some 101), (Some (ascii ''1''), Some 102),
           (Some (ascii ''10''), Some 103), (None, Some 104)], []]
   \<and> map (map (\<lambda>bs. (sequence bs, libraryItem (book bs))) \<circ> bookSeries)
         (fst (snd (getSeriesMostRecentlyAdded sample_series_projectors digits_localeCompare
                      sample_findAndCountAll book_library [] (JNumber 10))))
       = [[(Some (ascii ''1''), None), (Some (ascii ''3''), None),
           (Some (ascii ''10''), None), (None, None)], []]"
  by (simp add: sample_series_run sample_findAndCountAll_def series_A_def series_B_def
      sample_bookSeries_def ascii_def)

text \<open>
  Claim C7 fails on the code. For two rows that both have no sequence, the comparator
  answers 1 in both directions: the two answers are not opposite in sign, and neither
  is zero.
\<close>

theorem compareSequence_both_absent:
  "compareSequence lc (sample_bookSeries None 1) (sample_bookSeries None 2) = 1
   \<and> compareSequence lc (sample_bookSeries None 2) (sample_bookSeries None 1) = 1
   \<and> compareSequence lc (sample_bookSeries (Some []) 1) (sample_bookSeries None 2) = 1
   \<and> compareSequence lc (sample_bookSeries None 2) (sample_bookSeries (Some []) 1) = 1"
  by (simp add: compareSequence_def sample_bookSeries_def truthy_string_def)

section \<open>The size fallback\<close>

lemma media_size_attach_feed:
  "media_size (attach_feed P li) = media_size (getOldLibraryItem_toJSONMinified P li)"
  by (simp add: attach_feed_def Let_def split: option.split)

lemma media_size_attach_feed_size: "media_size (attach_feed_size P li) = size_fallback P li"
  by (simp add: attach_feed_size_def size_fallback_def Let_def media_size_attach_feed)

lemma media_size_attach_feed_series:
  "media_size (attach_feed_series P li) = media_size (getOldLibraryItem_toJSONMinified P li)"
  by (simp add: attach_feed_series_def Let_def media_size_attach_feed split: option.split)

text \<open>
  Claim C8, as amended. Only \<open>getLibraryItemsMostRecentlyAdded\<close> applies the size
  fallback, on its book branch and on its podcast branch: the \<open>media.size\<close> of each
  returned item is the size of the loaded item when that is truthy and the projected
  \<open>media.size\<close> is falsy, and the projected \<open>media.size\<close> otherwise. The in-progress and
  continue-series shelves return the projected \<open>media.size\<close> as it is, and the books of
  a recent series are the projected items as they are.
\<close>

theorem size_fallback_most_recently_added_only:
  "(\<forall>r' calls. getLibraryItemsMostRecentlyAdded P storage lib userId incl lim = (Inr r', calls)
       \<longrightarrow> (\<exists>call r. calls = [call] \<and> storage call = Inr r
              \<and> map media_size (libraryItems r') = map (size_fallback P) (libraryItems r)))
   \<and> (\<forall>r' call. getLibraryItemsInProgress P storage lib userId incl lim ebook = (Inr r', [call])
       \<longrightarrow> (\<exists>r. storage call = Inr r
              \<and> map media_size (libraryItems r')
                  = map (\<lambda>li. media_size (getOldLibraryItem_toJSONMinified P li)) (libraryItems r)))
   \<and> (\<forall>r' calls. getLibraryItemsContinueSeries P storage lib userId incl lim = (Inr r', calls)
       \<longrightarrow> (\<exists>call r. calls = [call] \<and> storage call = Inr r
              \<and> map media_size (libraryItems r')
                  = map (\<lambda>li. media_size (getOldLibraryItem_toJSONMinified P li)) (libraryItems r)))
   \<and> (\<forall>old s'. assemble_series Q lc s = (Inr old, s')
       \<longrightarrow> map Some (books old)
            = map (projected (media_getOldLibraryItem_toJSONMinified Q))
                (Array_sort (compareSequence lc) (bookSeries s)))"
proof (intro conjI allI impI)
  fix r' calls
  assume "getLibraryItemsMostRecentlyAdded P storage lib userId incl lim = (Inr r', calls)"
  then show "\<exists>call r. calls = [call] \<and> storage call = Inr r
              \<and> map media_size (libraryItems r') = map (size_fallback P) (libraryItems r)"
    by (auto simp: getLibraryItemsMostRecentlyAdded_def Let_def media_size_attach_feed_size
        split: if_splits sum.splits)
next
  fix r' call
  assume "getLibraryItemsInProgress P storage lib userId incl lim ebook = (Inr r', [call])"
  then show "\<exists>r. storage call = Inr r
              \<and> map media_size (libraryItems r')
                  = map (\<lambda>li. media_size (getOldLibraryItem_toJSONMinified P li)) (libraryItems r)"
    by (auto simp: getLibraryItemsInProgress_def Let_def media_size_attach_feed
        split: if_splits sum.splits)
next
  fix r' calls
  assume "getLibraryItemsContinueSeries P storage lib userId incl lim = (Inr r', calls)"
  then show "\<exists>call r. calls = [call] \<and> storage call = Inr r
              \<and> map media_size (libraryItems r')
                  = map (\<lambda>li. media_size (getOldLibraryItem_toJSONMinified P li)) (libraryItems r)"
    by (auto simp: getLibraryItemsContinueSeries_def Let_def media_size_attach_feed_series
        split: sum.splits)
next
  fix old s'
  assume "assemble_series Q lc s = (Inr old, s')"
  then show "map Some (books old)
            = map (projected (media_getOldLibraryItem_toJSONMinified Q))
                (Array_sort (compareSequence lc) (bookSeries s))"
    by (rule assemble_series_Inr(2))
qed

lemmas shelf_evals =
  getLibraryItemsMostRecentlyAdded_def getLibraryItemsInProgress_def
  getLibraryItemsContinueSeries_def attach_feed_def attach_feed_size_def
  attach_feed_series_def truthy_number_def sample_projectors_def sample_item_def
  one_item_storage_def book_library_def podcast_library_def ascii_def Let_def

lemma sample_most_recently_added_run:
  "getLibraryItemsMostRecentlyAdded sample_projectors one_item_storage podcast_library JNull []
     (JNumber 10)
   = (Inr \<lparr>libraryItems =
             [\<lparr>json = 7, rssFeed = None, media_size = Some 5, media_metadata_series = None\<rparr>],
           count = JNumber 1\<rparr>,
      [Podcast_getFilteredLibraryItems (JString (ascii ''lib_p'')) JNull None None
         (JString (ascii ''addedAt'')) (JBool True) [] (JNumber 10) (JNumber 0)])"
  by (simp add: shelf_evals)

theorem size_fallback_most_recently_added_only_witness:
  "getLibraryItemsMostRecentlyAdded sample_projectors one_item_storage podcast_library JNull []
     (JNumber 10)
   = (Inr \<lparr>libraryItems =
             [\<lparr>json = 7, rssFeed = None, media_size = Some 5, media_metadata_series = None\<rparr>],
           count = JNumber 1\<rparr>,
      [Podcast_getFilteredLibraryItems (JString (ascii ''lib_p'')) JNull None None
         (JString (ascii ''addedAt'')) (JBool True) [] (JNumber 10) (JNumber 0)])
   \<and> (\<exists>call r.
         [Podcast_getFilteredLibraryItems (JString (ascii ''lib_p'')) JNull None None
            (JString (ascii ''addedAt'')) (JBool True) [] (JNumber 10) (JNumber 0)] = [call]
         \<and> one_item_storage call = Inr r
         \<and> map media_size
              (libraryItems
                \<lparr>libraryItems =
                   [\<lparr>json = 7 :: nat, rssFeed = None :: nat option, media_size = Some 5,
                      media_metadata_series = None :: nat option\<rparr>],
                 count = JNumber 1\<rparr>)
             = map (size_fallback sample_projectors) (libraryItems r))"
  using sample_most_recently_added_run
    size_fallback_most_recently_added_only[where P = sample_projectors
      and storage = one_item_storage and lib = podcast_library and userId = JNull
      and incl = "[]" and lim = "JNumber 10", THEN conjunct1, rule_format,
      OF sample_most_recently_added_run]
  by (rule conjI)

text \<open>
  Claim C8 as stated fails: the loaded item has the size 5 and its projected media has
  no size, and the in-progress and the continue-series shelves return it with no
  \<open>media.size\<close>.
\<close>

theorem size_fallback_counterexample:
  "truthy_number (li_size sample_item)
   \<and> \<not> truthy_number (media_size (getOldLibraryItem_toJSONMinified sample_projectors sample_item))
   \<and> getLibraryItemsInProgress sample_projectors one_item_storage book_library JNull []
         (JNumber 10) False
       = (Inr \<lparr>libraryItems =
                 [\<lparr>json = 7, rssFeed = None, media_size = None, media_metadata_series = None\<rparr>],
               count = JNumber 1\<rparr>,
          [Book_getFilteredLibraryItems (JString (ascii ''lib_b'')) JNull
             (Some (ascii ''progress'')) (Some (ascii ''audio-in-progress''))
             (JString (ascii ''progress'')) (JBool True) (JBool False) [] (JNumber 10)
             (JNumber 0)])
   \<and> getLibraryItemsContinueSeries sample_projectors one_item_storage book_library JNull []
         (JNumber 10)
       = (Inr \<lparr>libraryItems =
                 [\<lparr>json = 7, rssFeed = None, media_size = None, media_metadata_series = None\<rparr>],
               count = JNumber 1\<rparr>,
          [Book_getContinueSeriesLibraryItems (JString (ascii ''lib_b'')) JNull [] (JNumber 10)
             (JNumber 0)])"
  by (simp add: shelf_evals)

end
